theory Spec2Isabelle
  imports Main "HOL-Library.Sublist" "HOL-Library.Word"
begin

section \<open>Configuration model (package beegfs, configuration file handling)\<close>

text \<open>
  Go strings are byte sequences and \<open>len\<close> counts bytes, so a Go string is a
  \<^typ>\<open>string\<close> here. A slice and a map are reference types with a \<open>nil\<close> value:
  both are modelled under \<open>option\<close>, \<open>None\<close> being \<open>nil\<close>. Reading a nil slice or a
  nil map behaves like reading an empty one; writing an entry into a nil map is a
  run-time panic.
\<close>

definition len :: "'a list option \<Rightarrow> nat" where
  "len s = (case s of None \<Rightarrow> 0 | Some xs \<Rightarrow> length xs)"

definition elems :: "'a list option \<Rightarrow> 'a list" where
  "elems s = (case s of None \<Rightarrow> [] | Some xs \<Rightarrow> xs)"

definition lookup :: "('k \<rightharpoonup> 'v) option \<Rightarrow> 'k \<Rightarrow> 'v option" where
  "lookup m k = (case m of None \<Rightarrow> None | Some f \<Rightarrow> f k)"

definition noEffectBeegfsConfOptions :: "string list" where
  "noEffectBeegfsConfOptions = [''sysMgmtdHost'', ''connClientPortUDP'', ''connPortShift'']"


record beegfsConfig =
  ConnInterfaces :: "string list option"
  ConnNetFilter :: "string list option"
  ConnTcpOnlyFilter :: "string list option"
  BeegfsClientConf :: "(string \<rightharpoonup> string) option"
  connAuth :: string

text \<open>\<open>newBeegfsConfig\<close>: the zero value but for a fresh, non-nil map.\<close>

definition newBeegfsConfig :: beegfsConfig where
  "newBeegfsConfig =
     \<lparr>ConnInterfaces = None, ConnNetFilter = None, ConnTcpOnlyFilter = None,
      BeegfsClientConf = Some Map.empty, connAuth = ''''\<rparr>"

text \<open>The zero value \<open>beegfsConfig{}\<close>: what the YAML decoder leaves for keys a file omits.\<close>

definition zeroBeegfsConfig :: beegfsConfig where
  "zeroBeegfsConfig =
     \<lparr>ConnInterfaces = None, ConnNetFilter = None, ConnTcpOnlyFilter = None,
      BeegfsClientConf = None, connAuth = ''''\<rparr>"

record FileSystemSpecificConfig =
  SysMgmtdHost :: string
  Config :: beegfsConfig

text \<open>
  \<open>PluginConfig\<close> has the fields \<open>DefaultConfig\<close> and \<open>FileSystemSpecificConfigs\<close>.
  \<open>pluginConfigFromFile\<close> embeds it and adds \<open>NodeSpecificConfigs\<close>; \<open>nodeSpecificConfig\<close>
  has two fields of the same names and types next to its \<open>NodeList\<close>. Both are record
  extensions, so that the field names of the source are kept.
\<close>

record PluginConfig =
  DefaultConfig :: beegfsConfig
  FileSystemSpecificConfigs :: "FileSystemSpecificConfig list"

record nodeSpecificConfig = PluginConfig +
  NodeList :: "string list"

record pluginConfigFromFile = PluginConfig +
  NodeSpecificConfigs :: "nodeSpecificConfig list"

record connAuthConfig =
  caSysMgmtdHost :: string
  caConnAuth :: string

text \<open>
  Errors. \<open>External\<close> is an error of the operating system, a library or an external tool,
  \<open>NotExist\<close> one for which \<open>os.IsNotExist\<close> holds, \<open>CtlNotExist\<close> a \<open>ctlNotExistError\<close>;
  \<open>Wrap\<close> is \<open>errors.Wrap\<close> or \<open>errors.WithMessage\<close> (\<open>errors.WithStack\<close> changes nothing that
  is modelled).
\<close>

datatype error =
    NilMapAssignment
  | ReadFileFailed string
  | UnmarshalFailed string
  | InvalidSysMgmtdHost string
  | InvalidConnNetFilter string
  | InvalidConnTCPOnlyFilter string
  | ConfigValidationFailed error
  | External string
  | NotExist string
  | CtlNotExist string
  | Msg string
  | Wrap string error
  | RefusedUnmount string string
  | UrlParse string
  | IncorrectScheme
  | InvalidParameter string
  | SyntaxError string
  | RangeError string
  | VolumeInUse string

subsection \<open>\<open>overwriteFrom\<close>\<close>

text \<open>
  The receiver is updated field by field; the model returns the updated receiver. A
  non-empty source slice is copied into a fresh slice of the same length. The final loop
  \<open>for k, v := range writeFrom.BeegfsClientConf { c.BeegfsClientConf[k] = v }\<close> stores every
  entry of the source map in the receiver's map, which is \<open>cm ++ wm\<close> whatever the
  iteration order; its first store panics when the receiver's map is nil.
\<close>

definition overwriteFrom :: "beegfsConfig \<Rightarrow> beegfsConfig \<Rightarrow> error + beegfsConfig" where
  "overwriteFrom c writeFrom =
     (let c1 = (if len (ConnInterfaces writeFrom) \<noteq> 0
                then c\<lparr>ConnInterfaces := Some (elems (ConnInterfaces writeFrom))\<rparr> else c);
          c2 = (if len (ConnNetFilter writeFrom) \<noteq> 0
                then c1\<lparr>ConnNetFilter := Some (elems (ConnNetFilter writeFrom))\<rparr> else c1);
          c3 = (if len (ConnTcpOnlyFilter writeFrom) \<noteq> 0
                then c2\<lparr>ConnTcpOnlyFilter := Some (elems (ConnTcpOnlyFilter writeFrom))\<rparr> else c2);
          c4 = (if connAuth writeFrom \<noteq> '''' then c3\<lparr>connAuth := connAuth writeFrom\<rparr> else c3)
      in case BeegfsClientConf writeFrom of
           None \<Rightarrow> Inr c4
         | Some wm \<Rightarrow>
             (case BeegfsClientConf c4 of
                None \<Rightarrow> if dom wm = {} then Inr c4 else Inl NilMapAssignment
              | Some cm \<Rightarrow> Inr (c4\<lparr>BeegfsClientConf := Some (cm ++ wm)\<rparr>)))"

subsection \<open>\<open>overwriteFileSystemSpecificConfigs\<close>\<close>

text \<open>
  The inner loop overwrites every entry of \<open>writeTo\<close> whose host equals that of
  \<open>writeFromConfig\<close> (there is no \<open>break\<close>) and reports whether there was one; the outer
  loop appends \<open>writeFromConfig\<close> when there was none.
\<close>

fun overwriteMatching ::
  "FileSystemSpecificConfig \<Rightarrow> FileSystemSpecificConfig list
     \<Rightarrow> error + (bool \<times> FileSystemSpecificConfig list)" where
  "overwriteMatching writeFromConfig [] = Inr (False, [])"
| "overwriteMatching writeFromConfig (writeToConfig # rest) =
     (if SysMgmtdHost writeToConfig = SysMgmtdHost writeFromConfig then
        (case overwriteFrom (Config writeToConfig) (Config writeFromConfig) of
           Inl e \<Rightarrow> Inl e
         | Inr c \<Rightarrow>
             (case overwriteMatching writeFromConfig rest of
                Inl e \<Rightarrow> Inl e
              | Inr (had, rest') \<Rightarrow> Inr (True, writeToConfig\<lparr>Config := c\<rparr> # rest')))
      else
        (case overwriteMatching writeFromConfig rest of
           Inl e \<Rightarrow> Inl e
         | Inr (had, rest') \<Rightarrow> Inr (had, writeToConfig # rest')))"

fun overwriteFileSystemSpecificConfigs ::
  "FileSystemSpecificConfig list \<Rightarrow> FileSystemSpecificConfig list
     \<Rightarrow> error + FileSystemSpecificConfig list" where
  "overwriteFileSystemSpecificConfigs writeTo [] = Inr writeTo"
| "overwriteFileSystemSpecificConfigs writeTo (writeFromConfig # rest) =
     (case overwriteMatching writeFromConfig writeTo of
        Inl e \<Rightarrow> Inl e
      | Inr (writeToHadConfig, writeTo') \<Rightarrow>
          overwriteFileSystemSpecificConfigs
            (if writeToHadConfig then writeTo' else writeTo' @ [writeFromConfig]) rest)"

subsection \<open>Address and host syntax (\<open>net.ParseIP\<close>, \<open>net.ParseCIDR\<close>, the domain pattern)\<close>

text \<open>
  \<open>validateConfig\<close> calls Go's standard library. \<open>dtoi\<close>, \<open>parseIPv4\<close>, \<open>ParseIP\<close> and
  \<open>ParseCIDR\<close> follow package \<open>net\<close> as results "is not nil" / "no error"; the IPv6
  parser is a parameter \<open>v6\<close> of everything that uses it.
\<close>

definition inRange :: "char \<Rightarrow> char \<Rightarrow> char \<Rightarrow> bool" where
  "inRange lo hi c = ((of_char lo :: nat) \<le> of_char c \<and> (of_char c :: nat) \<le> of_char hi)"

definition big :: nat where
  "big = 0xFFFFFF"

text \<open>\<open>dtoi\<close>: decimal to integer; the number, the characters consumed, success.\<close>

fun dtoiLoop :: "nat \<Rightarrow> nat \<Rightarrow> string \<Rightarrow> nat \<times> nat \<times> bool" where
  "dtoiLoop n i [] = (if i = 0 then (0, 0, False) else (n, i, True))"
| "dtoiLoop n i (c # s) =
     (if inRange CHR ''0'' CHR ''9'' c then
        (let n' = n * 10 + (of_char c - of_char CHR ''0'')
         in if n' \<ge> big then (big, i, False) else dtoiLoop n' (Suc i) s)
      else if i = 0 then (0, 0, False) else (n, i, True))"

definition dtoi :: "string \<Rightarrow> nat \<times> nat \<times> bool" where
  "dtoi s = dtoiLoop 0 0 s"

text \<open>
  \<open>parseIPv4\<close>: four decimal fields of at most \<open>0xFF\<close>, separated by dots. A field of more
  than one digit that starts with \<open>0\<close> is rejected (\<open>if c > 1 && s[0] == '0'\<close>, Go 1.17 and
  later).
\<close>

fun parseIPv4Loop :: "nat \<Rightarrow> nat \<Rightarrow> string \<Rightarrow> bool" where
  "parseIPv4Loop 0 i s = (s = [])"
| "parseIPv4Loop (Suc k) i s =
     (if s = [] then False
      else if i > 0 \<and> hd s \<noteq> CHR ''.'' then False
      else (let s1 = (if i > 0 then tl s else s);
                (n, c, ok) = dtoi s1
            in if \<not> ok \<or> n > 0xFF then False
               else if c > 1 \<and> hd s1 = CHR ''0'' then False
               else parseIPv4Loop k (Suc i) (drop c s1)))"

definition parseIPv4 :: "string \<Rightarrow> bool" where
  "parseIPv4 s = parseIPv4Loop 4 0 s"

text \<open>\<open>ParseIP\<close> dispatches on the first \<open>.\<close> or \<open>:\<close> of the string.\<close>

fun ParseIPLoop :: "(string \<Rightarrow> bool) \<Rightarrow> string \<Rightarrow> string \<Rightarrow> bool" where
  "ParseIPLoop v6 s [] = False"
| "ParseIPLoop v6 s (c # rest) =
     (if c = CHR ''.'' then parseIPv4 s
      else if c = CHR '':'' then v6 s
      else ParseIPLoop v6 s rest)"

definition ParseIP :: "(string \<Rightarrow> bool) \<Rightarrow> string \<Rightarrow> bool" where
  "ParseIP v6 s = ParseIPLoop v6 s s"

definition ParseCIDR :: "(string \<Rightarrow> bool) \<Rightarrow> string \<Rightarrow> bool" where
  "ParseCIDR v6 s =
     (if CHR ''/'' \<notin> set s then False
      else
        (let addr = takeWhile (\<lambda>c. c \<noteq> CHR ''/'') s;
             mask = tl (dropWhile (\<lambda>c. c \<noteq> CHR ''/'') s);
             v4 = parseIPv4 addr;
             iplen = (if v4 then 4 else 16 :: nat);
             ip = (if v4 then True else v6 addr);
             (n, i, ok) = dtoi mask
         in \<not> (\<not> ip \<or> \<not> ok \<or> i \<noteq> length mask \<or> n > 8 * iplen)))"

text \<open>
  A regular expression is modelled by the function that maps a string to the remainders
  left after the expression has matched a prefix of it; an anchored pattern \<open>^r$\<close> matches
  when the empty remainder is among them.
\<close>

type_synonym matcher = "string \<Rightarrow> string list"

definition rxClass :: "(char \<Rightarrow> bool) \<Rightarrow> matcher" where
  "rxClass P s = (case s of [] \<Rightarrow> [] | c # r \<Rightarrow> if P c then [r] else [])"

definition rxSeq :: "matcher \<Rightarrow> matcher \<Rightarrow> matcher" where
  "rxSeq a b s = concat (map b (a s))"

definition rxAlt :: "matcher \<Rightarrow> matcher \<Rightarrow> matcher" where
  "rxAlt a b s = a s @ b s"

definition rxOpt :: "matcher \<Rightarrow> matcher" where
  "rxOpt a s = s # a s"

text \<open>\<open>r{0,n}\<close>.\<close>

primrec rxUpTo :: "nat \<Rightarrow> matcher \<Rightarrow> matcher" where
  "rxUpTo 0 a s = [s]"
| "rxUpTo (Suc n) a s = s # concat (map (rxUpTo n a) (a s))"

text \<open>
  \<open>r+\<close>: one match of \<open>r\<close>, then at most \<open>length s\<close> more (a further repetition that
  consumes nothing adds no remainder).
\<close>

definition rxPlus :: "matcher \<Rightarrow> matcher" where
  "rxPlus a s = concat (map (rxUpTo (length s) a) (a s))"

definition MatchString :: "matcher \<Rightarrow> string \<Rightarrow> bool" where
  "MatchString r s = ([] \<in> set (r s))"

definition lower :: "char \<Rightarrow> bool" where
  "lower c = inRange CHR ''a'' CHR ''z'' c"

definition digit :: "char \<Rightarrow> bool" where
  "digit c = inRange CHR ''0'' CHR ''9'' c"

definition chr :: "char \<Rightarrow> char \<Rightarrow> bool" where
  "chr a c = (c = a)"

text \<open>
  The pattern of \<open>validateConfig\<close>:
  \<^verbatim>\<open>^(?:[_a-z0-9](?:[_a-z0-9-]{0,61}[a-z0-9]\.)|(?:[0-9]+/[0-9]{2})\.)+(?:[a-z](?:[a-z0-9-]{0,61}[a-z0-9])?)?$\<close>
\<close>

definition domainRegex :: matcher where
  "domainRegex =
     rxSeq
       (rxPlus
          (rxAlt
             (rxSeq (rxClass (\<lambda>c. c = CHR ''_'' \<or> lower c \<or> digit c))
                (rxSeq (rxUpTo 61 (rxClass (\<lambda>c. c = CHR ''_'' \<or> lower c \<or> digit c \<or> c = CHR ''-'')))
                   (rxSeq (rxClass (\<lambda>c. lower c \<or> digit c)) (rxClass (chr CHR ''.'')))))
             (rxSeq
                (rxSeq (rxPlus (rxClass digit))
                   (rxSeq (rxClass (chr CHR ''/'')) (rxSeq (rxClass digit) (rxClass digit))))
                (rxClass (chr CHR ''.'')))))
       (rxOpt
          (rxSeq (rxClass lower)
             (rxOpt
                (rxSeq (rxUpTo 61 (rxClass (\<lambda>c. lower c \<or> digit c \<or> c = CHR ''-'')))
                   (rxClass (\<lambda>c. lower c \<or> digit c))))))"

subsection \<open>\<open>validateConfig\<close>\<close>

definition invalidHost :: "(string \<Rightarrow> bool) \<Rightarrow> string \<Rightarrow> bool" where
  "invalidHost v6 h =
     (h \<noteq> ''localhost'' \<and> \<not> ParseIP v6 h \<and> \<not> MatchString domainRegex h)"

definition invalidFilter :: "(string \<Rightarrow> bool) \<Rightarrow> string \<Rightarrow> bool" where
  "invalidFilter v6 entry = (\<not> ParseCIDR v6 entry \<and> \<not> ParseIP v6 entry)"

text \<open>The second loop, over the default configuration and every file system's.\<close>

fun validateFilters :: "(string \<Rightarrow> bool) \<Rightarrow> beegfsConfig list \<Rightarrow> error + unit" where
  "validateFilters v6 [] = Inr ()"
| "validateFilters v6 (config # rest) =
     (case find (invalidFilter v6) (elems (ConnNetFilter config)) of
        Some entry \<Rightarrow> Inl (InvalidConnNetFilter entry)
      | None \<Rightarrow>
          (case find (invalidFilter v6) (elems (ConnTcpOnlyFilter config)) of
             Some entry \<Rightarrow> Inl (InvalidConnTCPOnlyFilter entry)
           | None \<Rightarrow> validateFilters v6 rest))"

text \<open>
  The first loop returns at the first host that is neither \<open>localhost\<close>, nor an IP address,
  nor matched by the pattern, and collects the configurations for the second loop.
\<close>

definition validateConfig :: "(string \<Rightarrow> bool) \<Rightarrow> 'a PluginConfig_scheme \<Rightarrow> error + unit" where
  "validateConfig v6 plConfig =
     (case find (\<lambda>config. invalidHost v6 (SysMgmtdHost config))
             (FileSystemSpecificConfigs plConfig) of
        Some config \<Rightarrow> Inl (InvalidSysMgmtdHost (SysMgmtdHost config))
      | None \<Rightarrow>
          validateFilters v6
            (DefaultConfig plConfig # map Config (FileSystemSpecificConfigs plConfig)))"

subsection \<open>\<open>stripConfig\<close>\<close>

text \<open>
  \<open>stripConfig\<close> copies the configurations into a slice and deletes from the map of each
  copy; a copy shares its map with the original, so the keys are gone from the plugin
  configuration itself. \<open>delete\<close> on a nil map does nothing. The unsupported options are
  only logged.
\<close>

definition stripBeegfsConfig :: "beegfsConfig \<Rightarrow> beegfsConfig" where
  "stripBeegfsConfig config =
     (case BeegfsClientConf config of
        None \<Rightarrow> config
      | Some m \<Rightarrow>
          config\<lparr>BeegfsClientConf :=
            Some (fold (\<lambda>noEffectOption m. m(noEffectOption := None)) noEffectBeegfsConfOptions m)\<rparr>)"

definition stripConfig :: "PluginConfig \<Rightarrow> PluginConfig" where
  "stripConfig plConfig =
     \<lparr>DefaultConfig = stripBeegfsConfig (DefaultConfig plConfig),
      FileSystemSpecificConfigs =
        map (\<lambda>config. config\<lparr>Config := stripBeegfsConfig (Config config)\<rparr>)
          (FileSystemSpecificConfigs plConfig)\<rparr>"

subsection \<open>\<open>parseConfigFromFile\<close>\<close>

text \<open>
  Reading the file and decoding its YAML are outside the program: their outcome is the
  argument \<open>file\<close>, an error or the decoded \<open>pluginConfigFromFile\<close>.
\<close>

fun applyNodeSpecificConfigs ::
  "string \<Rightarrow> PluginConfig \<Rightarrow> nodeSpecificConfig list \<Rightarrow> error + PluginConfig" where
  "applyNodeSpecificConfigs nodeID newPluginConfig [] = Inr newPluginConfig"
| "applyNodeSpecificConfigs nodeID newPluginConfig (nodeConfig # rest) =
     (if nodeID \<in> set (NodeList nodeConfig) then
        (case overwriteFrom (DefaultConfig newPluginConfig) (DefaultConfig nodeConfig) of
           Inl e \<Rightarrow> Inl e
         | Inr d \<Rightarrow>
             (case overwriteFileSystemSpecificConfigs
                     (FileSystemSpecificConfigs newPluginConfig)
                     (FileSystemSpecificConfigs nodeConfig) of
                Inl e \<Rightarrow> Inl e
              | Inr fs \<Rightarrow>
                  applyNodeSpecificConfigs nodeID
                    \<lparr>DefaultConfig = d, FileSystemSpecificConfigs = fs\<rparr> rest))
      else applyNodeSpecificConfigs nodeID newPluginConfig rest)"

definition parseConfigFromFile ::
  "(string \<Rightarrow> bool) \<Rightarrow> error + pluginConfigFromFile \<Rightarrow> string \<Rightarrow> error + PluginConfig" where
  "parseConfigFromFile v6 file nodeID =
     (case file of
        Inl e \<Rightarrow> Inl e
      | Inr rawConfig \<Rightarrow>
          (case applyNodeSpecificConfigs nodeID
                  \<lparr>DefaultConfig = DefaultConfig rawConfig,
                   FileSystemSpecificConfigs = FileSystemSpecificConfigs rawConfig\<rparr>
                  (NodeSpecificConfigs rawConfig) of
             Inl e \<Rightarrow> Inl e
           | Inr newPluginConfig \<Rightarrow>
               (case validateConfig v6 newPluginConfig of
                  Inl e \<Rightarrow> Inl (ConfigValidationFailed e)
                | Inr _ \<Rightarrow> Inr (stripConfig newPluginConfig))))"

subsection \<open>\<open>parseConnAuthFromFile\<close>\<close>

text \<open>
  For each entry of the file, the secret of the first configuration with the entry's host
  is assigned (then \<open>break\<close>); without such a configuration a new one is appended.
  \<open>setConnAuth\<close> is the inner loop, \<open>None\<close> when it found no match.
\<close>

fun setConnAuth ::
  "connAuthConfig \<Rightarrow> FileSystemSpecificConfig list \<Rightarrow> FileSystemSpecificConfig list option" where
  "setConnAuth ca [] = None"
| "setConnAuth ca (specificConfig # rest) =
     (if caSysMgmtdHost ca = SysMgmtdHost specificConfig then
        Some (specificConfig\<lparr>Config := (Config specificConfig)\<lparr>connAuth := caConnAuth ca\<rparr>\<rparr> # rest)
      else map_option ((#) specificConfig) (setConnAuth ca rest))"

fun applyConnAuths ::
  "connAuthConfig list \<Rightarrow> FileSystemSpecificConfig list \<Rightarrow> FileSystemSpecificConfig list" where
  "applyConnAuths [] configs = configs"
| "applyConnAuths (ca # rest) configs =
     applyConnAuths rest
       (case setConnAuth ca configs of
          Some configs' \<Rightarrow> configs'
        | None \<Rightarrow>
            configs @
              [\<lparr>SysMgmtdHost = caSysMgmtdHost ca,
                Config = zeroBeegfsConfig\<lparr>connAuth := caConnAuth ca\<rparr>\<rparr>])"

definition parseConnAuthFromFile ::
  "error + connAuthConfig list \<Rightarrow> PluginConfig \<Rightarrow> error + PluginConfig" where
  "parseConnAuthFromFile file newPluginConfig =
     (case file of
        Inl e \<Rightarrow> Inl e
      | Inr connAuthConfigs \<Rightarrow>
          Inr (newPluginConfig\<lparr>FileSystemSpecificConfigs :=
                 applyConnAuths connAuthConfigs (FileSystemSpecificConfigs newPluginConfig)\<rparr>))"

subsection \<open>\<open>squashConfigForSysMgmtdHost\<close>\<close>

fun squashLoop ::
  "string \<Rightarrow> beegfsConfig \<Rightarrow> FileSystemSpecificConfig list \<Rightarrow> error + beegfsConfig" where
  "squashLoop sysMgmtdHost returnConfig [] = Inr returnConfig"
| "squashLoop sysMgmtdHost returnConfig (fileSystemSpecificConfig # rest) =
     (if sysMgmtdHost = SysMgmtdHost fileSystemSpecificConfig then
        (case overwriteFrom returnConfig (Config fileSystemSpecificConfig) of
           Inl e \<Rightarrow> Inl e
         | Inr returnConfig' \<Rightarrow> squashLoop sysMgmtdHost returnConfig' rest)
      else squashLoop sysMgmtdHost returnConfig rest)"

definition squashConfigForSysMgmtdHost :: "string \<Rightarrow> PluginConfig \<Rightarrow> error + beegfsConfig" where
  "squashConfigForSysMgmtdHost sysMgmtdHost config =
     (case overwriteFrom newBeegfsConfig (DefaultConfig config) of
        Inl e \<Rightarrow> Inl e
      | Inr returnConfig \<Rightarrow>
          squashLoop sysMgmtdHost returnConfig (FileSystemSpecificConfigs config))"

subsection \<open>Example inputs\<close>

definition exValidation :: PluginConfig where
  "exValidation =
     \<lparr>DefaultConfig = zeroBeegfsConfig\<lparr>ConnNetFilter := Some [''10.0.0.0/24'']\<rparr>,
      FileSystemSpecificConfigs =
        [\<lparr>SysMgmtdHost = ''localhost'',
          Config = zeroBeegfsConfig\<lparr>ConnTcpOnlyFilter := Some [''999.999.999.999'']\<rparr>\<rparr>]\<rparr>"


subsection \<open>Layers of the effective configuration\<close>

text \<open>
  What a fragment sets: a list field when the list is not empty, a client option when
  its key is present, the secret when it is not the empty string. \<open>override a b\<close> is
  the value after a layer that sets \<open>b\<close> has been applied to a target holding \<open>a\<close>, and
  \<open>lastSet\<close> the value after a sequence of layers, lowest first.
\<close>

definition override :: "'v option \<Rightarrow> 'v option \<Rightarrow> 'v option" where
  "override a b = (case b of None \<Rightarrow> a | Some v \<Rightarrow> Some v)"

definition lastSet :: "'v option list \<Rightarrow> 'v option" where
  "lastSet vs = foldl override None vs"

definition setList :: "string list option \<Rightarrow> string list option" where
  "setList s = (if len s \<noteq> 0 then Some (elems s) else None)"

definition setSecret :: "string \<Rightarrow> string option" where
  "setSecret s = (if s \<noteq> '''' then Some s else None)"

text \<open>The node-scoped fragments that apply to \<open>nodeID\<close>, in file order.\<close>

definition nodeLayers :: "pluginConfigFromFile \<Rightarrow> string \<Rightarrow> nodeSpecificConfig list" where
  "nodeLayers raw nodeID =
     filter (\<lambda>nodeConfig. nodeID \<in> set (NodeList nodeConfig)) (NodeSpecificConfigs raw)"

text \<open>
  The layers of the configuration file for a backend \<open>host\<close>, lowest first: the global
  default, the defaults of the node-scoped fragments, the global fragments for \<open>host\<close>, the
  fragments for \<open>host\<close> of the node-scoped fragments.
\<close>

definition layers :: "pluginConfigFromFile \<Rightarrow> string \<Rightarrow> string \<Rightarrow> beegfsConfig list" where
  "layers raw nodeID host =
     DefaultConfig raw # map DefaultConfig (nodeLayers raw nodeID) @
     map Config
       (filter (\<lambda>f. SysMgmtdHost f = host)
          (FileSystemSpecificConfigs raw @
           concat (map FileSystemSpecificConfigs (nodeLayers raw nodeID))))"

text \<open>The last authentication entry for \<open>host\<close>.\<close>

definition lastAuth :: "connAuthConfig list \<Rightarrow> string \<Rightarrow> connAuthConfig option" where
  "lastAuth auths host = find (\<lambda>ca. caSysMgmtdHost ca = host) (rev auths)"

text \<open>
  \<open>connAuth\<close> is unexported and has no YAML tag: every fragment decoded from a
  configuration file has the empty secret.
\<close>

definition noSecrets :: "pluginConfigFromFile \<Rightarrow> bool" where
  "noSecrets raw =
     (list_all (\<lambda>c. connAuth c = '''')
        (DefaultConfig raw # map Config (FileSystemSpecificConfigs raw) @
         concat (map (\<lambda>n. DefaultConfig n # map Config (FileSystemSpecificConfigs n))
                   (NodeSpecificConfigs raw))))"

text \<open>
  Auxiliary notions for the proofs. A view reads from a configuration what it sets for
  one field (or one client option); \<open>mergesView v\<close> says that \<open>overwriteFrom\<close> treats the
  view as a layer. \<open>hostViews\<close> lists the views of the fragments for one host, \<open>secretsOf\<close>
  their secrets.
\<close>

definition mergesView :: "(beegfsConfig \<Rightarrow> 'v option) \<Rightarrow> bool" where
  "mergesView v = (\<forall>c w c'. overwriteFrom c w = Inr c' \<longrightarrow> v c' = override (v c) (v w))"

definition hostViews ::
  "(beegfsConfig \<Rightarrow> 'v option) \<Rightarrow> string \<Rightarrow> FileSystemSpecificConfig list \<Rightarrow> 'v option list" where
  "hostViews v h fs = map (\<lambda>f. v (Config f)) (filter (\<lambda>f. SysMgmtdHost f = h) fs)"

definition secretsOf :: "string \<Rightarrow> FileSystemSpecificConfig list \<Rightarrow> string list" where
  "secretsOf h fs = map (\<lambda>f. connAuth (Config f)) (filter (\<lambda>f. SysMgmtdHost f = h) fs)"

text \<open>Example files: a layered configuration, and authentication files.\<close>

definition exLayered :: pluginConfigFromFile where
  "exLayered =
     \<lparr>DefaultConfig =
        zeroBeegfsConfig\<lparr>ConnInterfaces := Some [''ib0''],
                         BeegfsClientConf := Some [''connMaxInternodeNum'' \<mapsto> ''8'']\<rparr>,
      FileSystemSpecificConfigs =
        [\<lparr>SysMgmtdHost = ''10.0.0.1'',
          Config = zeroBeegfsConfig\<lparr>ConnNetFilter := Some [''10.0.0.0/24'']\<rparr>\<rparr>],
      NodeSpecificConfigs =
        [\<lparr>DefaultConfig =
            zeroBeegfsConfig\<lparr>ConnInterfaces := Some [''ib1''],
                             BeegfsClientConf := Some [''connUseRDMA'' \<mapsto> ''true'']\<rparr>,
          FileSystemSpecificConfigs = [],
          NodeList = [''node1'']\<rparr>]\<rparr>"

definition exAuths :: "connAuthConfig list" where
  "exAuths = [\<lparr>caSysMgmtdHost = ''10.0.0.1'', caConnAuth = ''secret''\<rparr>]"

definition exEmptyFile :: pluginConfigFromFile where
  "exEmptyFile =
     \<lparr>DefaultConfig = zeroBeegfsConfig, FileSystemSpecificConfigs = [], NodeSpecificConfigs = []\<rparr>"

definition exAuthTwice :: "connAuthConfig list" where
  "exAuthTwice =
     [\<lparr>caSysMgmtdHost = ''10.0.0.1'', caConnAuth = ''secret''\<rparr>,
      \<lparr>caSysMgmtdHost = ''10.0.0.1'', caConnAuth = ''''\<rparr>]"

section \<open>Paths (Go's package \<open>path\<close>)\<close>

text \<open>
  \<open>path.Clean\<close> reads the path from index \<open>r\<close> and writes a buffer of \<open>w\<close> bytes;
  \<open>dotdot\<close> is the index below which \<open>..\<close> must not backtrack. Here \<open>rest\<close> is the unread
  part of the path and \<open>out\<close> the bytes written.

  Backtracking over a \<open>..\<close> element: \<open>out.w--\<close>, then
  \<open>for out.w > dotdot && out.index(out.w) != '/' { out.w-- }\<close>. The byte at index \<open>out.w\<close>
  is the byte dropped last, \<open>c\<close> below.
\<close>

function backLoop :: "nat \<Rightarrow> string \<Rightarrow> char \<Rightarrow> string" where
  "backLoop dotdot out c =
     (if length out > dotdot \<and> c \<noteq> CHR ''/'' then backLoop dotdot (butlast out) (last out)
      else out)"
  by pat_completeness auto
termination
  by (relation "measure (\<lambda>(dotdot, out, c). length out)") auto

declare backLoop.simps [simp del]

definition backtrack :: "nat \<Rightarrow> string \<Rightarrow> string" where
  "backtrack dotdot out = backLoop dotdot (butlast out) (last out)"

function cleanLoop :: "bool \<Rightarrow> string \<Rightarrow> string \<Rightarrow> nat \<Rightarrow> string" where
  "cleanLoop rooted [] out dotdot = out"
| "cleanLoop rooted (c # r1) out dotdot =
     (if c = CHR ''/'' then cleanLoop rooted r1 out dotdot
      else if c = CHR ''.'' \<and> (r1 = [] \<or> hd r1 = CHR ''/'') then cleanLoop rooted r1 out dotdot
      else if c = CHR ''.'' \<and> hd r1 = CHR ''.'' \<and> (tl r1 = [] \<or> hd (tl r1) = CHR ''/'') then
        (if length out > dotdot then cleanLoop rooted (tl r1) (backtrack dotdot out) dotdot
         else if \<not> rooted then
           (let out' = (if length out > 0 then out @ ''/'' else out) @ ''..''
            in cleanLoop rooted (tl r1) out' (length out'))
         else cleanLoop rooted (tl r1) out dotdot)
      else
        (let out' = (if rooted \<and> length out \<noteq> 1 \<or> \<not> rooted \<and> length out \<noteq> 0
                     then out @ ''/'' else out)
         in cleanLoop rooted (dropWhile (\<lambda>x. x \<noteq> CHR ''/'') r1)
              (out' @ c # takeWhile (\<lambda>x. x \<noteq> CHR ''/'') r1) dotdot))"
  by pat_completeness auto
termination
  by (relation "measure (\<lambda>(rooted, rest, out, dotdot). length rest)")
     (auto simp: less_Suc_eq_le length_dropWhile_le)

definition Clean :: "string \<Rightarrow> string" where
  "Clean path =
     (if path = [] then ''.''
      else
        (let rooted = (hd path = CHR ''/'');
             out = (if rooted then cleanLoop True (tl path) ''/'' 1
                    else cleanLoop False path [] 0)
         in if out = [] then ''.'' else out))"

text \<open>\<open>strings.Join(elems, "/")\<close>.\<close>

fun joinSlash :: "string list \<Rightarrow> string" where
  "joinSlash [] = []"
| "joinSlash [e] = e"
| "joinSlash (e # es) = e @ ''/'' @ joinSlash es"

text \<open>
  \<open>path.Join\<close>: the elements from the first non-empty one on are joined with slashes
  and the result is cleaned; without a non-empty element the result is empty.
\<close>

definition Join :: "string list \<Rightarrow> string" where
  "Join elem =
     (case dropWhile (\<lambda>e. e = []) elem of
        [] \<Rightarrow> []
      | es \<Rightarrow> Clean (joinSlash es))"

text \<open>
  Auxiliary notions for the proofs about rooted paths: the elements of a path between
  its slashes, the stack of elements that \<open>Clean\<close> keeps, and the path a stack stands for.
\<close>

fun splitSlash :: "string \<Rightarrow> string list" where
  "splitSlash [] = [[]]"
| "splitSlash (c # s) =
     (if c = CHR ''/'' then [] # splitSlash s
      else (case splitSlash s of [] \<Rightarrow> [[c]] | x # xs \<Rightarrow> (c # x) # xs))"

definition stepElem :: "string list \<Rightarrow> string \<Rightarrow> string list" where
  "stepElem st e =
     (if e = [] \<or> e = ''.'' then st else if e = ''..'' then butlast st else st @ [e])"

definition render :: "string list \<Rightarrow> string" where
  "render st = CHR ''/'' # joinSlash st"

definition realElem :: "string \<Rightarrow> bool" where
  "realElem e = (e \<noteq> [] \<and> CHR ''/'' \<notin> set e \<and> e \<noteq> ''.'' \<and> e \<noteq> ''..'')"

section \<open>Volume identities and directory names\<close>

subsection \<open>\<open>strings.Replace\<close>, \<open>strings.Contains\<close>, \<open>strings.HasPrefix\<close>\<close>

text \<open>
  \<open>Replace s old new n\<close> replaces the first \<open>n\<close> non-overlapping occurrences of \<open>old\<close>,
  from the left; a negative \<open>n\<close> puts no limit. The program calls it with a non-empty \<open>old\<close>
  only, and the model covers that case (for an empty \<open>old\<close> it returns \<open>s\<close>).
\<close>

function replaceLoop :: "int \<Rightarrow> string \<Rightarrow> string \<Rightarrow> string \<Rightarrow> string" where
  "replaceLoop n old new [] = []"
| "replaceLoop n old new (c # s) =
     (if n = 0 \<or> old = [] then c # s
      else if prefix old (c # s) then new @ replaceLoop (n - 1) old new (drop (length old) (c # s))
      else c # replaceLoop n old new s)"
  by pat_completeness auto
termination
  by (relation "measure (\<lambda>(n, old, new, s). length s)") auto

definition Replace :: "string \<Rightarrow> string \<Rightarrow> string \<Rightarrow> int \<Rightarrow> string" where
  "Replace s old new n = (if old = new \<or> n = 0 then s else replaceLoop n old new s)"

fun Contains :: "string \<Rightarrow> string \<Rightarrow> bool" where
  "Contains [] substr = (substr = [])"
| "Contains (c # s) substr = (prefix substr (c # s) \<or> Contains s substr)"

definition HasPrefix :: "string \<Rightarrow> string \<Rightarrow> bool" where
  "HasPrefix s pre = prefix pre s"

subsection \<open>\<open>sanitizeVolumeID\<close>\<close>

text \<open>
  \<open>sha1.Sum\<close> returns a \<open>[20]byte\<close>, here a word of 160 bits (the first byte highest); the
  hash function itself is a parameter. \<open>fmt.Sprintf("%x", \<dots>)\<close> of such an array prints two
  lower-case hexadecimal digits per byte.
\<close>

definition hexDigit :: "nat \<Rightarrow> char" where
  "hexDigit n = ''0123456789abcdef'' ! n"

definition Sprintf_x :: "160 word \<Rightarrow> string" where
  "Sprintf_x digest =
     map (\<lambda>i. hexDigit (unat (take_bit 4 (drop_bit (4 * i) digest)))) (rev [0..<40])"

definition sanitizeVolumeID :: "(string \<Rightarrow> 160 word) \<Rightarrow> string \<Rightarrow> string" where
  "sanitizeVolumeID sha1_Sum volumeID =
     (let sanitizedVolumeID = Replace volumeID ''beegfs://'' '''' 1;
          sanitizedVolumeID = Replace sanitizedVolumeID ''_'' ''__'' (- 1);
          sanitizedVolumeID = Replace sanitizedVolumeID ''/'' ''_'' (- 1)
      in if length sanitizedVolumeID > 255 then Sprintf_x (sha1_Sum volumeID)
         else sanitizedVolumeID)"

text \<open>
  The encoding in the words of the specification, one pass over the characters: an
  underscore is doubled, a path separator becomes one underscore.
\<close>

definition encodeName :: "string \<Rightarrow> string" where
  "encodeName s =
     concat (map (\<lambda>c. if c = CHR ''_'' then ''__'' else if c = CHR ''/'' then ''_'' else [c]) s)"

text \<open>
  The number a string of lower-case hexadecimal digits denotes, the first digit highest:
  the reading against which the printed hash is checked.
\<close>

definition hexValue :: "string \<Rightarrow> int" where
  "hexValue s =
     foldl (\<lambda>n c. 16 * n +
              (if inRange CHR ''0'' CHR ''9'' c then of_char c - of_char CHR ''0''
               else of_char c - of_char CHR ''a'' + 10)) 0 s"

section \<open>Diagnostic serialization (\<open>MarshalJSON\<close>)\<close>

text \<open>
  The value \<open>encoding/json\<close> writes is modelled as a tree; its text is a function of the
  tree. A nil slice and a nil map are written as \<open>null\<close>, a map as an object of its entries
  (\<open>JMap\<close>, the keys sorted by the encoder). A struct is written as an object of its
  exported fields in declaration order, those of an embedded struct included; unexported
  fields are not written.
\<close>

datatype json =
    JNull
  | JString string
  | JArray "json list"
  | JMap "string \<rightharpoonup> string"
  | JObject "(string \<times> json) list"

definition jsonStrings :: "string list option \<Rightarrow> json" where
  "jsonStrings s = (case s of None \<Rightarrow> JNull | Some xs \<Rightarrow> JArray (map JString xs))"

definition jsonStringMap :: "(string \<rightharpoonup> string) option \<Rightarrow> json" where
  "jsonStringMap m = (case m of None \<Rightarrow> JNull | Some f \<Rightarrow> JMap f)"

text \<open>
  \<open>beegfsConfig.MarshalJSON\<close> marshals an anonymous struct: the field \<open>ConnAuth\<close> (tagged
  \<open>omitempty\<close>) and the embedded alias of the configuration, whose own \<open>connAuth\<close> is
  unexported.
\<close>

definition beegfsConfig_MarshalJSON :: "beegfsConfig \<Rightarrow> json" where
  "beegfsConfig_MarshalJSON c =
     (let connAuthString = (if connAuth c \<noteq> '''' then ''******'' else '''')
      in JObject
           ((if connAuthString = '''' then [] else [(''ConnAuth'', JString connAuthString)]) @
            [(''ConnInterfaces'', jsonStrings (ConnInterfaces c)),
             (''ConnNetFilter'', jsonStrings (ConnNetFilter c)),
             (''ConnTcpOnlyFilter'', jsonStrings (ConnTcpOnlyFilter c)),
             (''BeegfsClientConf'', jsonStringMap (BeegfsClientConf c))]))"

definition connAuthConfig_MarshalJSON :: "connAuthConfig \<Rightarrow> json" where
  "connAuthConfig_MarshalJSON c =
     (let connAuthString = (if caConnAuth c \<noteq> '''' then ''******'' else '''')
      in JObject [(''SysMgmtdHost'', JString (caSysMgmtdHost c)),
                  (''ConnAuth'', JString connAuthString)])"

text \<open>The value written for a member of an object, if the object has the member.\<close>

definition member :: "json \<Rightarrow> string \<Rightarrow> json option" where
  "member j name = (case j of JObject ms \<Rightarrow> map_of ms name | _ \<Rightarrow> None)"

subsection \<open>Identities as URLs (\<open>net/url\<close>)\<close>

text \<open>
  \<open>newBeegfsUrl\<close> prints a \<open>url.URL\<close> in which only \<open>Scheme\<close>, \<open>Host\<close> and \<open>Path\<close> are set.
  \<open>shouldEscape\<close> and \<open>escape\<close> follow package \<open>net/url\<close> for the modes the program reaches:
  the host and the path of \<open>URL.String\<close>; \<open>parseBeegfsUrl\<close> also reaches the modes of the
  user information, the fragment and the IPv6 zone when it unescapes.
\<close>

datatype encoding = encodePath | encodeHost | encodeZone | encodeUserPassword | encodeFragment

definition alnum :: "char \<Rightarrow> bool" where
  "alnum c = (inRange CHR ''a'' CHR ''z'' c \<or> inRange CHR ''A'' CHR ''Z'' c \<or> inRange CHR ''0'' CHR ''9'' c)"

text \<open>The characters a host may hold unescaped: \<open>! $ & ' ( ) * + , ; = : [ ] < > "\<close>.\<close>

definition hostSafe :: "char list" where
  "hostSafe = ''!$&()*+,;=:[]<>'' @ [CHR 0x27, CHR 0x22]"

definition shouldEscape :: "char \<Rightarrow> encoding \<Rightarrow> bool" where
  "shouldEscape c mode =
     (if alnum c then False
      else if (mode = encodeHost \<or> mode = encodeZone) \<and> c \<in> set hostSafe then False
      else if c \<in> set ''-_.~'' then False
      else if c \<in> set ''$&+,/:;=?@'' \<and> mode = encodePath then c = CHR ''?''
      else if c \<in> set ''$&+,/:;=?@'' \<and> mode = encodeUserPassword
        then c = CHR ''@'' \<or> c = CHR ''/'' \<or> c = CHR ''?'' \<or> c = CHR '':''
      else if c \<in> set ''$&+,/:;=?@'' \<and> mode = encodeFragment then False
      else if mode = encodeFragment \<and> c \<in> set ''!()*'' then False
      else True)"

definition upperhex :: "nat \<Rightarrow> char" where
  "upperhex n = ''0123456789ABCDEF'' ! n"

definition escape :: "string \<Rightarrow> encoding \<Rightarrow> string" where
  "escape s mode =
     concat (map (\<lambda>c. if shouldEscape c mode
                       then [CHR ''%'', upperhex (of_char c div 16), upperhex (of_char c mod 16)]
                       else [c]) s)"

text \<open>
  \<open>URL.String\<close> for \<open>url.URL{Scheme: "beegfs", Host: host, Path: path}\<close>: the scheme and a
  colon; two slashes when there is a host or a path; the escaped host; a slash when the
  escaped path does not start with one and there is a host; the escaped path (a path \<open>*\<close>
  is not escaped).
\<close>

definition newBeegfsUrl :: "string \<Rightarrow> string \<Rightarrow> string" where
  "newBeegfsUrl host path =
     (let escapedPath = (if path = ''*'' then ''*'' else escape path encodePath)
      in ''beegfs:'' @
         (if host \<noteq> [] \<or> path \<noteq> [] then ''//'' else []) @
         (if host \<noteq> [] then escape host encodeHost else []) @
         (if escapedPath \<noteq> [] \<and> hd escapedPath \<noteq> CHR ''/'' \<and> host \<noteq> [] then ''/'' else []) @
         escapedPath)"

section \<open>Mounting and cleaning up\<close>

text \<open>
  The file system, the mount table and the administration tool are outside the program.
  A run is modelled against an environment \<open>env\<close> that fixes the outcome of every external
  call, and against a world that records the calls made, in order, and the identities
  held by the concurrency guard. Functions of the package that are not in the sources
  are fields of the environment too.
\<close>

record MountPoint =
  Device :: string
  Path :: string
  Opts :: "string list"

record beegfsVolume =
  config :: beegfsConfig
  clientConfPath :: string
  mountDirPath :: string
  mountPath :: string
  sysMgmtdHost :: string
  volDirBasePathBeegfsRoot :: string
  volDirPath :: string
  volumeID :: string

record permissionsConfig =
  uid :: "32 word"
  gid :: "32 word"
  mode :: "16 word"

record stripePatternConfig =
  storagePoolID :: string
  stripePatternChunkSize :: string
  stripePatternNumTargets :: string

datatype action =
    ListMounts
  | CleanupMountPoint string
  | ReadDir string
  | RemoveAll string
  | MkdirAll string
  | Mkdir string
  | WriteClientFiles string string
  | IsLikelyNotMountPoint string
  | Mount string string string "string list"
  | CreateDirectoryForVolume string permissionsConfig
  | SetPatternForVolume string stripePatternConfig
  | StatDirectoryForVolume string
  | Chmod string

record 'cap env =
  listMounts :: "error + MountPoint list"
  cleanupMountPoint :: "string \<Rightarrow> error option"
  readDir :: "string \<Rightarrow> error + string list"
  removeAll :: "string \<Rightarrow> error option"
  mkdirAll :: "string \<Rightarrow> error option"
  mkdir :: "string \<Rightarrow> error option"
  writeFiles :: "beegfsVolume \<Rightarrow> string \<Rightarrow> error option"
  isLikelyNotMountPoint :: "string \<Rightarrow> bool \<times> error option"
  mount :: "string \<Rightarrow> string \<Rightarrow> string \<Rightarrow> string list \<Rightarrow> error option"
  createDirectoryForVolume :: "beegfsVolume \<Rightarrow> permissionsConfig \<Rightarrow> error option"
  setPatternForVolume :: "beegfsVolume \<Rightarrow> stripePatternConfig \<Rightarrow> error option"
  statDirectoryForVolume :: "beegfsVolume \<Rightarrow> error option"
  chmod :: "string \<Rightarrow> error option"
  sha1Sum :: "string \<Rightarrow> 160 word"
  isValidVolumeCapabilities :: "'cap list \<Rightarrow> bool \<times> string"
  constructVolume :: "string \<Rightarrow> string \<Rightarrow> string \<Rightarrow> PluginConfig \<Rightarrow> beegfsVolume"
  newBeegfsVolumeFromID :: "string \<Rightarrow> string \<Rightarrow> PluginConfig \<Rightarrow> error + beegfsVolume"
  hasSpecialPermissions :: "permissionsConfig \<Rightarrow> bool"
  sysMgmtdHostKey :: string
  volDirBasePathKey :: string
  stripePatternStoragePoolIDKey :: string
  stripePatternChunkSizeKey :: string
  stripePatternNumTargetsKey :: string
  permissionsUIDKey :: string
  permissionsGIDKey :: string
  permissionsModeKey :: string
  defaultPermissionsMode :: "16 word"

record world =
  held :: "string set"
  trace :: "action list"

definition act :: "action \<Rightarrow> world \<Rightarrow> world" where
  "act a w = w\<lparr>trace := trace w @ [a]\<rparr>"

subsection \<open>\<open>mountIfNecessary\<close>\<close>

text \<open>\<open>os.IsNotExist\<close> looks at the error itself, not at what it wraps.\<close>

fun IsNotExist :: "error \<Rightarrow> bool" where
  "IsNotExist (NotExist p) = True"
| "IsNotExist e = False"

definition mountIfNecessary :: "'cap env \<Rightarrow> beegfsVolume \<Rightarrow> world \<Rightarrow> error option \<times> world" where
  "mountIfNecessary env vol w =
     (let mountOpts = [''rw'', ''relatime'', ''cfgFile='' @ clientConfPath vol];
          w1 = act (IsLikelyNotMountPoint (mountPath vol)) w;
          doMount = (\<lambda>w'. (mount env ''beegfs_nodev'' (mountPath vol) ''beegfs'' mountOpts,
                            act (Mount ''beegfs_nodev'' (mountPath vol) ''beegfs'' mountOpts) w'))
      in case isLikelyNotMountPoint env (mountPath vol) of
           (notMnt, Some e) \<Rightarrow>
             if IsNotExist e then
               (let w2 = act (Mkdir (mountPath vol)) w1
                in case mkdir env (mountPath vol) of
                     Some e' \<Rightarrow> (Some e', w2)
                   | None \<Rightarrow> doMount w2)
             else (Some e, w1)
         | (notMnt, None) \<Rightarrow> if \<not> notMnt then (None, w1) else doMount w1)"

subsection \<open>\<open>cleanUpIfNecessary\<close>\<close>

fun removeEntries :: "'cap env \<Rightarrow> string \<Rightarrow> string list \<Rightarrow> world \<Rightarrow> error option \<times> world" where
  "removeEntries env dir [] w = (None, w)"
| "removeEntries env dir (d # rest) w =
     (let w1 = act (RemoveAll (Join [dir, d])) w
      in case removeAll env (Join [dir, d]) of
           Some e \<Rightarrow> (Some e, w1)
         | None \<Rightarrow> removeEntries env dir rest w1)"

definition cleanUpIfNecessary ::
  "'cap env \<Rightarrow> beegfsVolume \<Rightarrow> bool \<Rightarrow> world \<Rightarrow> error option \<times> world" where
  "cleanUpIfNecessary env vol rmDir w =
     (if rmDir = False then
        (let w1 = act (ReadDir (mountDirPath vol)) w
         in case readDir env (mountDirPath vol) of
              Inl e \<Rightarrow> (Some e, w1)
            | Inr dir \<Rightarrow> removeEntries env (mountDirPath vol) dir w1)
      else (removeAll env (mountDirPath vol), act (RemoveAll (mountDirPath vol)) w))"

subsection \<open>\<open>unmountAndCleanUpIfNecessary\<close>\<close>

text \<open>
  The scan of the mount table: the first entry with the device \<open>beegfs_nodev\<close>, a path that
  does not contain the volume's mount path, and an option that contains the path of the
  volume's client configuration file.
\<close>

fun findBindMount :: "beegfsVolume \<Rightarrow> MountPoint list \<Rightarrow> MountPoint option" where
  "findBindMount vol [] = None"
| "findBindMount vol (entry # rest) =
     (if Device entry = ''beegfs_nodev'' \<and> \<not> Contains (Path entry) (mountPath vol) \<and>
         list_ex (\<lambda>opt. Contains opt (clientConfPath vol)) (Opts entry)
      then Some entry
      else findBindMount vol rest)"

definition unmountAndCleanUpIfNecessary ::
  "'cap env \<Rightarrow> beegfsVolume \<Rightarrow> bool \<Rightarrow> world \<Rightarrow> error option \<times> world" where
  "unmountAndCleanUpIfNecessary env vol rmDir w =
     (let w1 = act ListMounts w
      in case listMounts env of
           Inl e \<Rightarrow> (Some (Wrap ''error listing mounted filesystems'' e), w1)
         | Inr allMounts \<Rightarrow>
             (case findBindMount vol allMounts of
                Some entry \<Rightarrow> (Some (RefusedUnmount (mountPath vol) (Path entry)), w1)
              | None \<Rightarrow>
                  (let w2 = act (CleanupMountPoint (mountPath vol)) w1
                   in case cleanupMountPoint env (mountPath vol) of
                        Some e \<Rightarrow> (Some e, w2)
                      | None \<Rightarrow>
                          (case cleanUpIfNecessary env vol rmDir w2 of
                             (Some e, w3) \<Rightarrow>
                               (Some (Wrap (''error cleaning up volume '' @ volumeID vol) e), w3)
                           | (None, w3) \<Rightarrow> (None, w3)))))"

section \<open>Controller service\<close>

datatype code = InvalidArgument | Aborted | Internal | NotFound | Unimplemented

text \<open>A gRPC status error: \<open>status.Error\<close>, \<open>status.Errorf\<close> and \<open>newGrpcErrorFromCause\<close>.\<close>

datatype grpcError = GrpcError code error

text \<open>
  The fields of \<open>controllerServer\<close> that the handlers read. The executor of the
  administration tool and the mounter are the environment's; \<open>volumeIDsInFlight\<close> is the
  set \<open>held\<close> of the world.
\<close>

record controllerServer =
  pluginConfig :: PluginConfig
  clientConfTemplatePath :: string
  csDataDir :: string

subsection \<open>The concurrency guard\<close>

text \<open>
  Modelled from the spec: \<open>threadSafeStringLock\<close> is not in the sources. In the words of
  the specification it is "a registry mapping volume identity to held/not-held.
  \<open>acquire(id) -> bool\<close> (false if already held, true and marks held otherwise);
  \<open>release(id)\<close>".
\<close>

definition obtainLockOnString :: "string \<Rightarrow> world \<Rightarrow> bool \<times> world" where
  "obtainLockOnString s w =
     (if s \<in> held w then (False, w) else (True, w\<lparr>held := insert s (held w)\<rparr>))"

definition releaseLockOnString :: "string \<Rightarrow> world \<Rightarrow> world" where
  "releaseLockOnString s w = w\<lparr>held := held w - {s}\<rparr>"

subsection \<open>Request parameters\<close>

text \<open>
  \<open>strconv.ParseUint\<close> for a base from 2 to 36 and a size from 1 to 64 bits, as the program
  calls it.
\<close>

definition digitOf :: "char \<Rightarrow> int option" where
  "digitOf c =
     (if inRange CHR ''0'' CHR ''9'' c then Some (of_char c - of_char CHR ''0'')
      else if inRange CHR ''a'' CHR ''z'' c then Some (of_char c - of_char CHR ''a'' + 10)
      else if inRange CHR ''A'' CHR ''Z'' c then Some (of_char c - of_char CHR ''A'' + 10)
      else None)"

fun parseUintLoop :: "int \<Rightarrow> int \<Rightarrow> string \<Rightarrow> int \<Rightarrow> string \<Rightarrow> error + int" where
  "parseUintLoop base maxVal s0 n [] = Inr n"
| "parseUintLoop base maxVal s0 n (c # s) =
     (case digitOf c of
        None \<Rightarrow> Inl (SyntaxError s0)
      | Some d \<Rightarrow>
          if d \<ge> base then Inl (SyntaxError s0)
          else if n * base + d > maxVal then Inl (RangeError s0)
          else parseUintLoop base maxVal s0 (n * base + d) s)"

definition ParseUint :: "string \<Rightarrow> int \<Rightarrow> nat \<Rightarrow> error + int" where
  "ParseUint s base bitSize =
     (if s = [] then Inl (SyntaxError s) else parseUintLoop base (2 ^ bitSize - 1) s 0 s)"

text \<open>
  The request parameters are a Go map. Both functions range over it, and Go leaves the
  order of the keys open: \<open>reqParams\<close> is the list of the map's entries in the order in
  which the run visits them (one entry for each key). \<open>len\<close> of the map is the length of the
  list, and \<open>reqParams[k]\<close> is \<open>map_of reqParams k\<close>, the empty string for a missing key
  where the code reads one result only.
\<close>

definition valueOf :: "(string \<times> string) list \<Rightarrow> string \<Rightarrow> string" where
  "valueOf params k = (case map_of params k of None \<Rightarrow> [] | Some v \<Rightarrow> v)"

fun stripePatternLoop ::
  "'cap env \<Rightarrow> (string \<times> string) list \<Rightarrow> string list \<Rightarrow> stripePatternConfig
     \<Rightarrow> error + stripePatternConfig" where
  "stripePatternLoop env params [] cfg = Inr cfg"
| "stripePatternLoop env params (param # rest) cfg =
     (if Contains param ''stripePattern/'' then
        (if param = stripePatternStoragePoolIDKey env then
           stripePatternLoop env params rest
             (cfg\<lparr>storagePoolID := valueOf params (stripePatternStoragePoolIDKey env)\<rparr>)
         else if param = stripePatternChunkSizeKey env then
           stripePatternLoop env params rest
             (cfg\<lparr>stripePatternChunkSize := valueOf params (stripePatternChunkSizeKey env)\<rparr>)
         else if param = stripePatternNumTargetsKey env then
           stripePatternLoop env params rest
             (cfg\<lparr>stripePatternNumTargets := valueOf params (stripePatternNumTargetsKey env)\<rparr>)
         else Inl (InvalidParameter param))
      else stripePatternLoop env params rest cfg)"

definition getStripePatternConfigFromParams ::
  "'cap env \<Rightarrow> (string \<times> string) list \<Rightarrow> error + stripePatternConfig" where
  "getStripePatternConfigFromParams env reqParams =
     stripePatternLoop env reqParams (map fst reqParams)
       \<lparr>storagePoolID = [], stripePatternChunkSize = [], stripePatternNumTargets = []\<rparr>"

fun permissionsLoop ::
  "'cap env \<Rightarrow> (string \<times> string) list \<Rightarrow> string list \<Rightarrow> permissionsConfig
     \<Rightarrow> error + permissionsConfig" where
  "permissionsLoop env params [] cfg = Inr cfg"
| "permissionsLoop env params (param # rest) cfg =
     (if HasPrefix param ''permissions/'' then
        (if param = permissionsUIDKey env then
           (case ParseUint (valueOf params (permissionsUIDKey env)) 10 32 of
              Inl e \<Rightarrow> Inl (Wrap ''could not parse provided UID'' e)
            | Inr n \<Rightarrow> permissionsLoop env params rest (cfg\<lparr>uid := of_int n\<rparr>))
         else if param = permissionsGIDKey env then
           (case ParseUint (valueOf params (permissionsGIDKey env)) 10 32 of
              Inl e \<Rightarrow> Inl (Wrap ''could not parse provided GID'' e)
            | Inr n \<Rightarrow> permissionsLoop env params rest (cfg\<lparr>gid := of_int n\<rparr>))
         else if param = permissionsModeKey env then
           (case ParseUint (valueOf params (permissionsModeKey env)) 8 12 of
              Inl e \<Rightarrow> Inl (Wrap ''could not parse provided mode'' e)
            | Inr n \<Rightarrow> permissionsLoop env params rest (cfg\<lparr>mode := of_int n\<rparr>))
         else Inl (InvalidParameter param))
      else permissionsLoop env params rest cfg)"

definition getPermissionsConfigFromParams ::
  "'cap env \<Rightarrow> (string \<times> string) list \<Rightarrow> error + permissionsConfig" where
  "getPermissionsConfigFromParams env reqParams =
     permissionsLoop env reqParams (map fst reqParams) \<lparr>uid = 0, gid = 0, mode = defaultPermissionsMode env\<rparr>"

subsection \<open>Volumes of the controller\<close>

text \<open>
  Modelled from the spec: the constructor \<open>newBeegfsVolume\<close> of the package is not in the
  sources. The wrapper below says of its own construction of the identity that it
  "duplicates the one further down in the stack", and the specification says that the
  identity is \<open>encode(host, path)\<close>: the volume the constructor returns has the identity
  \<open>NewBeegfsUrl(sysMgmtdHost, volDirPathBeegfsRoot)\<close>. Its other fields are the
  environment's (\<open>constructVolume\<close>).
\<close>

definition newBeegfsVolume ::
  "'cap env \<Rightarrow> string \<Rightarrow> string \<Rightarrow> string \<Rightarrow> PluginConfig \<Rightarrow> beegfsVolume" where
  "newBeegfsVolume env mountDir host volDirPathBeegfsRoot plConfig =
     (constructVolume env mountDir host volDirPathBeegfsRoot plConfig)
       \<lparr>volumeID := newBeegfsUrl host volDirPathBeegfsRoot\<rparr>"

text \<open>
  \<open>(cs *controllerServer) newBeegfsVolume\<close> and \<open>newBeegfsVolumeFromID\<close>: the identity is
  minted from the host and the joined path, the working directory is named after it, and
  the constructors of the package build the volume (\<open>newBeegfsVolumeFromID\<close> is a field of
  the environment).
\<close>

definition cs_newBeegfsVolume ::
  "'cap env \<Rightarrow> controllerServer \<Rightarrow> string \<Rightarrow> string \<Rightarrow> string \<Rightarrow> beegfsVolume" where
  "cs_newBeegfsVolume env cs host volDirBasePath volName =
     (let volDirPathBeegfsRoot = Join [volDirBasePath, volName];
          minted = newBeegfsUrl host volDirPathBeegfsRoot;
          dir = Join [csDataDir cs, sanitizeVolumeID (sha1Sum env) minted]
      in newBeegfsVolume env dir host volDirPathBeegfsRoot (pluginConfig cs))"

definition cs_newBeegfsVolumeFromID ::
  "'cap env \<Rightarrow> controllerServer \<Rightarrow> string \<Rightarrow> error + beegfsVolume" where
  "cs_newBeegfsVolumeFromID env cs identity =
     newBeegfsVolumeFromID env
       (Join [csDataDir cs, sanitizeVolumeID (sha1Sum env) identity]) identity (pluginConfig cs)"

subsection \<open>\<open>CreateVolume\<close>\<close>

text \<open>
  A handler takes what it reads from the request (\<open>req.GetName()\<close> and so on) and the
  world, and returns its response or error and the world it leaves. The deferred calls
  run when the handler returns, the last deferred first: the clean-up (its error is only
  logged), then the release of the guard.
\<close>

definition createVolumeSteps ::
  "'cap env \<Rightarrow> controllerServer \<Rightarrow> beegfsVolume \<Rightarrow> permissionsConfig \<Rightarrow> stripePatternConfig
     \<Rightarrow> world \<Rightarrow> (grpcError + string) \<times> world" where
  "createVolumeSteps env cs vol perms stripe w =
     (let w1 = act (MkdirAll (mountDirPath vol)) w
      in case mkdirAll env (mountDirPath vol) of
           Some e \<Rightarrow> (Inl (GrpcError Internal e), w1)
         | None \<Rightarrow>
        (let w2 = act (WriteClientFiles (volumeID vol) (clientConfTemplatePath cs)) w1
         in case writeFiles env vol (clientConfTemplatePath cs) of
              Some e \<Rightarrow> (Inl (GrpcError Internal e), w2)
            | None \<Rightarrow>
           (let w3 = act (CreateDirectoryForVolume (volumeID vol) perms) w2
            in case createDirectoryForVolume env vol perms of
                 Some e \<Rightarrow> (Inl (GrpcError Internal e), w3)
               | None \<Rightarrow>
              (let w4 = act (SetPatternForVolume (volumeID vol) stripe) w3
               in case setPatternForVolume env vol stripe of
                    Some e \<Rightarrow> (Inl (GrpcError Internal e), w4)
                  | None \<Rightarrow>
                      if hasSpecialPermissions env perms then
                        (case mountIfNecessary env vol w4 of
                           (Some e, w5) \<Rightarrow> (Inl (GrpcError Internal e), w5)
                         | (None, w5) \<Rightarrow>
                             (let w6 = act (Chmod (volDirPath vol)) w5
                              in case chmod env (volDirPath vol) of
                                   Some e \<Rightarrow> (Inl (GrpcError Internal e), w6)
                                 | None \<Rightarrow> (Inr (volumeID vol), w6)))
                      else (Inr (volumeID vol), w4)))))"

definition CreateVolume ::
  "'cap env \<Rightarrow> controllerServer \<Rightarrow> string \<Rightarrow> 'cap list \<Rightarrow> (string \<times> string) list
     \<Rightarrow> world \<Rightarrow> (grpcError + string) \<times> world" where
  "CreateVolume env cs volName volCaps reqParams w =
     (if length volName = 0 then
        (Inl (GrpcError InvalidArgument (Msg ''Volume name not provided'')), w)
      else if length volCaps = 0 then
        (Inl (GrpcError InvalidArgument (Msg ''Volume capabilities not provided'')), w)
      else if \<not> fst (isValidVolumeCapabilities env volCaps) then
        (Inl (GrpcError InvalidArgument
               (Msg (''Volume capabilities not supported: '' @
                     snd (isValidVolumeCapabilities env volCaps)))), w)
      else if length reqParams = 0 then
        (Inl (GrpcError InvalidArgument (Msg ''Request parameters not provided'')), w)
      else
        (case map_of reqParams (sysMgmtdHostKey env) of
           None \<Rightarrow>
             (Inl (GrpcError InvalidArgument (Msg (sysMgmtdHostKey env @ '' not provided''))), w)
         | Some host \<Rightarrow>
        (case map_of reqParams (volDirBasePathKey env) of
           None \<Rightarrow>
             (Inl (GrpcError InvalidArgument (Msg (volDirBasePathKey env @ '' not provided''))), w)
         | Some base \<Rightarrow>
        (let volDirBasePath = Clean (Join [''/'', base])
         in case getPermissionsConfigFromParams env reqParams of
              Inl e \<Rightarrow> (Inl (GrpcError InvalidArgument e), w)
            | Inr perms \<Rightarrow>
           (case getStripePatternConfigFromParams env reqParams of
              Inl e \<Rightarrow> (Inl (GrpcError InvalidArgument e), w)
            | Inr stripe \<Rightarrow>
              (let vol = cs_newBeegfsVolume env cs host volDirBasePath volName
               in case obtainLockOnString (volumeID vol) w of
                    (False, w0) \<Rightarrow>
                      (Inl (GrpcError Aborted (VolumeInUse (volumeID vol))), w0)
                  | (True, w0) \<Rightarrow>
                      (case createVolumeSteps env cs vol perms stripe w0 of
                         (result, w1) \<Rightarrow>
                           (case unmountAndCleanUpIfNecessary env vol True w1 of
                              (cleanUpError, w2) \<Rightarrow>
                                (result, releaseLockOnString (volumeID vol) w2)))))))))"

subsection \<open>\<open>DeleteVolume\<close>\<close>

definition deleteVolumeSteps ::
  "'cap env \<Rightarrow> controllerServer \<Rightarrow> beegfsVolume \<Rightarrow> world \<Rightarrow> (grpcError + unit) \<times> world" where
  "deleteVolumeSteps env cs vol w =
     (let w1 = act (MkdirAll (mountDirPath vol)) w
      in case mkdirAll env (mountDirPath vol) of
           Some e \<Rightarrow> (Inl (GrpcError Internal e), w1)
         | None \<Rightarrow>
        (let w2 = act (WriteClientFiles (volumeID vol) (clientConfTemplatePath cs)) w1
         in case writeFiles env vol (clientConfTemplatePath cs) of
              Some e \<Rightarrow> (Inl (GrpcError Internal e), w2)
            | None \<Rightarrow>
                (case mountIfNecessary env vol w2 of
                   (Some e, w3) \<Rightarrow> (Inl (GrpcError Internal e), w3)
                 | (None, w3) \<Rightarrow>
                     (let w4 = act (RemoveAll (volDirPath vol)) w3
                      in case removeAll env (volDirPath vol) of
                           Some e \<Rightarrow> (Inl (GrpcError Internal e), w4)
                         | None \<Rightarrow> (Inr (), w4)))))"

definition DeleteVolume ::
  "'cap env \<Rightarrow> controllerServer \<Rightarrow> string \<Rightarrow> world \<Rightarrow> (grpcError + unit) \<times> world" where
  "DeleteVolume env cs identity w =
     (if length identity = 0 then
        (Inl (GrpcError InvalidArgument (Msg ''Volume ID not provided'')), w)
      else
        (case cs_newBeegfsVolumeFromID env cs identity of
           Inl e \<Rightarrow> (Inl (GrpcError Internal e), w)
         | Inr vol \<Rightarrow>
             (case obtainLockOnString (volumeID vol) w of
                (False, w0) \<Rightarrow> (Inl (GrpcError Aborted (VolumeInUse (volumeID vol))), w0)
              | (True, w0) \<Rightarrow>
                  (case deleteVolumeSteps env cs vol w0 of
                     (result, w1) \<Rightarrow>
                       (case unmountAndCleanUpIfNecessary env vol True w1 of
                          (cleanUpError, w2) \<Rightarrow>
                            (result, releaseLockOnString (volumeID vol) w2))))))"

subsection \<open>\<open>ValidateVolumeCapabilities\<close>\<close>

datatype 'cap validation = Confirmed "'cap list" | NotConfirmed string

text \<open>\<open>errors.As(err, &ctlNotExistError{})\<close> follows the chain of wrapped errors.\<close>

fun isCtlNotExistError :: "error \<Rightarrow> bool" where
  "isCtlNotExistError (CtlNotExist m) = True"
| "isCtlNotExistError (Wrap m e) = isCtlNotExistError e"
| "isCtlNotExistError e = False"

definition validateVolumeSteps ::
  "'cap env \<Rightarrow> controllerServer \<Rightarrow> beegfsVolume \<Rightarrow> 'cap list \<Rightarrow> world
     \<Rightarrow> (grpcError + 'cap validation) \<times> world" where
  "validateVolumeSteps env cs vol volCaps w =
     (let w1 = act (MkdirAll (mountDirPath vol)) w
      in case mkdirAll env (mountDirPath vol) of
           Some e \<Rightarrow> (Inl (GrpcError Internal e), w1)
         | None \<Rightarrow>
        (let w2 = act (WriteClientFiles (volumeID vol) (clientConfTemplatePath cs)) w1
         in case writeFiles env vol (clientConfTemplatePath cs) of
              Some e \<Rightarrow> (Inl (GrpcError Internal e), w2)
            | None \<Rightarrow>
           (let w3 = act (StatDirectoryForVolume (volumeID vol)) w2
            in case statDirectoryForVolume env vol of
                 Some e \<Rightarrow>
                   if isCtlNotExistError e then (Inl (GrpcError NotFound e), w3)
                   else (Inl (GrpcError Internal e), w3)
               | None \<Rightarrow>
                   (case isValidVolumeCapabilities env volCaps of
                      (confirmed, reason) \<Rightarrow>
                        if confirmed then (Inr (Confirmed volCaps), w3)
                        else (Inr (NotConfirmed reason), w3)))))"

definition ValidateVolumeCapabilities ::
  "'cap env \<Rightarrow> controllerServer \<Rightarrow> string \<Rightarrow> 'cap list \<Rightarrow> world
     \<Rightarrow> (grpcError + 'cap validation) \<times> world" where
  "ValidateVolumeCapabilities env cs identity volCaps w =
     (if length identity = 0 then
        (Inl (GrpcError InvalidArgument (Msg ''Volume ID not provided'')), w)
      else if length volCaps = 0 then
        (Inl (GrpcError InvalidArgument (Msg ''Volume capabilities not provided'')), w)
      else
        (case cs_newBeegfsVolumeFromID env cs identity of
           Inl e \<Rightarrow> (Inl (GrpcError Internal e), w)
         | Inr vol \<Rightarrow>
             (case obtainLockOnString (volumeID vol) w of
                (False, w0) \<Rightarrow> (Inl (GrpcError Aborted (VolumeInUse (volumeID vol))), w0)
              | (True, w0) \<Rightarrow>
                  (case validateVolumeSteps env cs vol volCaps w0 of
                     (result, w1) \<Rightarrow>
                       (case cleanUpIfNecessary env vol True w1 of
                          (cleanUpError, w2) \<Rightarrow>
                            (result, releaseLockOnString (volumeID vol) w2))))))"

subsection \<open>Example environment\<close>

text \<open>
  An environment in which every external call succeeds, a volume, and three entries of a
  mount table: two bind mounts of the volume, and the view of the volume's own mount
  under \<open>/host\<close>.
\<close>

definition exNewVolume :: "string \<Rightarrow> string \<Rightarrow> string \<Rightarrow> beegfsVolume" where
  "exNewVolume dir host p =
     \<lparr>config = newBeegfsConfig, clientConfPath = Join [dir, ''beegfs-client.conf''],
      mountDirPath = dir, mountPath = Join [dir, ''mount''], sysMgmtdHost = host,
      volDirBasePathBeegfsRoot = p, volDirPath = Join [dir, ''mount'', p],
      volumeID = newBeegfsUrl host p\<rparr>"

definition exEnv :: "unit env" where
  "exEnv = \<lparr>listMounts = Inr [], cleanupMountPoint = (\<lambda>p. None), readDir = (\<lambda>p. Inr []),
     removeAll = (\<lambda>p. None), mkdirAll = (\<lambda>p. None), mkdir = (\<lambda>p. None),
     writeFiles = (\<lambda>vol template. None), isLikelyNotMountPoint = (\<lambda>p. (True, None)),
     mount = (\<lambda>source target fstype options. None),
     createDirectoryForVolume = (\<lambda>vol perms. None),
     setPatternForVolume = (\<lambda>vol stripe. None),
     statDirectoryForVolume = (\<lambda>vol. None), chmod = (\<lambda>p. None),
     sha1Sum = (\<lambda>s. 0), isValidVolumeCapabilities = (\<lambda>caps. (True, [])),
     constructVolume = (\<lambda>dir host p plConfig. exNewVolume dir host p),
     newBeegfsVolumeFromID = (\<lambda>dir identity plConfig.
       if identity = ''beegfs://10.0.0.1/v1'' then Inr (exNewVolume dir ''10.0.0.1'' ''/v1'')
       else Inl (UrlParse identity)),
     hasSpecialPermissions = (\<lambda>perms. False),
     sysMgmtdHostKey = ''sysMgmtdHost'', volDirBasePathKey = ''volDirBasePath'',
     stripePatternStoragePoolIDKey = ''stripePattern/storagePoolID'',
     stripePatternChunkSizeKey = ''stripePattern/chunkSize'',
     stripePatternNumTargetsKey = ''stripePattern/numTargets'',
     permissionsUIDKey = ''permissions/uid'', permissionsGIDKey = ''permissions/gid'',
     permissionsModeKey = ''permissions/mode'', defaultPermissionsMode = 493\<rparr>"

definition exVol :: beegfsVolume where
  "exVol = \<lparr>config = newBeegfsConfig, clientConfPath = ''/d/v1/beegfs-client.conf'',
     mountDirPath = ''/d/v1'', mountPath = ''/d/v1/mount'', sysMgmtdHost = ''10.0.0.1'',
     volDirBasePathBeegfsRoot = ''/v1'', volDirPath = ''/d/v1/mount/v1'',
     volumeID = ''beegfs://10.0.0.1/v1''\<rparr>"

definition exBound :: MountPoint where
  "exBound = \<lparr>Device = ''beegfs_nodev'', Path = ''/pods/a/v1'',
     Opts = [''rw'', ''cfgFile=/d/v1/beegfs-client.conf'']\<rparr>"

definition exBoundAgain :: MountPoint where
  "exBoundAgain = \<lparr>Device = ''beegfs_nodev'', Path = ''/pods/b/v1'',
     Opts = [''rw'', ''cfgFile=/d/v1/beegfs-client.conf'']\<rparr>"

definition exHostView :: MountPoint where
  "exHostView = \<lparr>Device = ''beegfs_nodev'', Path = ''/host/d/v1/mount'',
     Opts = [''rw'', ''cfgFile=/d/v1/beegfs-client.conf'']\<rparr>"

definition exWorld :: world where
  "exWorld = \<lparr>held = {}, trace = []\<rparr>"

definition exCs :: controllerServer where
  "exCs = \<lparr>pluginConfig = \<lparr>DefaultConfig = newBeegfsConfig, FileSystemSpecificConfigs = []\<rparr>,
     clientConfTemplatePath = ''/etc/beegfs/beegfs-client.conf'', csDataDir = ''/d''\<rparr>"

definition exParams :: "(string \<times> string) list" where
  "exParams = [(''permissions/uid'', ''1000''), (''sysMgmtdHost'', ''10.0.0.1''),
               (''volDirBasePath'', ''/'')]"

definition exBusy :: world where
  "exBusy = \<lparr>held = {''beegfs://10.0.0.1/v1''}, trace = []\<rparr>"

definition exParamsDots :: "(string \<times> string) list" where
  "exParamsDots = [(''sysMgmtdHost'', ''10.0.0.1''), (''volDirBasePath'', ''a/../b//'')]"

definition exAfterCreate :: world where
  "exAfterCreate =
     \<lparr>held = {},
      trace = [MkdirAll ''/d/10.0.0.1_b_v1'',
               WriteClientFiles ''beegfs://10.0.0.1/b/v1'' ''/etc/beegfs/beegfs-client.conf'',
               CreateDirectoryForVolume ''beegfs://10.0.0.1/b/v1'' \<lparr>uid = 0, gid = 0, mode = 493\<rparr>,
               SetPatternForVolume ''beegfs://10.0.0.1/b/v1''
                 \<lparr>storagePoolID = [], stripePatternChunkSize = [], stripePatternNumTargets = []\<rparr>,
               ListMounts, CleanupMountPoint ''/d/10.0.0.1_b_v1/mount'',
               RemoveAll ''/d/10.0.0.1_b_v1'']\<rparr>"

subsection \<open>Host names in words\<close>

text \<open>
  The strings the pattern of \<open>validateConfig\<close> matches, described without the pattern. The
  string is cut at its dots. Every part but the last is a label: either a name of 2 to 63
  characters (lower-case letters, digits, \<open>_\<close> and \<open>-\<close>, not starting with \<open>-\<close>, ending with a
  letter or a digit), or a range (digits, a slash, two digits). The last part is empty or
  a final label of 1 to 63 characters (a lower-case letter, then lower-case letters,
  digits and \<open>-\<close>, ending with a letter or a digit). There is at least one label.
\<close>

fun splitDots :: "string \<Rightarrow> string list" where
  "splitDots [] = [[]]"
| "splitDots (c # s) =
     (if c = CHR ''.'' then [] # splitDots s
      else (c # hd (splitDots s)) # tl (splitDots s))"

definition nameLabel :: "string \<Rightarrow> bool" where
  "nameLabel l =
     (2 \<le> length l \<and> length l \<le> 63 \<and>
      (hd l = CHR ''_'' \<or> lower (hd l) \<or> digit (hd l)) \<and>
      list_all (\<lambda>c. c = CHR ''_'' \<or> lower c \<or> digit c \<or> c = CHR ''-'') (butlast (tl l)) \<and>
      (lower (last l) \<or> digit (last l)))"

definition rangeLabel :: "string \<Rightarrow> bool" where
  "rangeLabel l =
     (4 \<le> length l \<and> list_all digit (take (length l - 3) l) \<and>
      l ! (length l - 3) = CHR ''/'' \<and> digit (l ! (length l - 2)) \<and> digit (l ! (length l - 1)))"

definition finalLabel :: "string \<Rightarrow> bool" where
  "finalLabel t =
     (1 \<le> length t \<and> length t \<le> 63 \<and> lower (hd t) \<and>
      (length t = 1 \<or>
       list_all (\<lambda>c. lower c \<or> digit c \<or> c = CHR ''-'') (butlast (tl t)) \<and>
       (lower (last t) \<or> digit (last t))))"

definition domainShape :: "string \<Rightarrow> bool" where
  "domainShape h =
     (let parts = splitDots h
      in 2 \<le> length parts \<and>
         list_all (\<lambda>l. nameLabel l \<or> rangeLabel l) (butlast parts) \<and>
         (last parts = [] \<or> finalLabel (last parts)))"

text \<open>
  Modelled from the spec: "a syntactically valid domain name" has no grammar in the
  specification and no counterpart in the sources but the pattern. \<open>domainName\<close> is the
  host name syntax in use (labels separated by dots, a dot at the end allowed), taken as
  widely as it is ever taken: a label is 1 to 63 letters, digits, hyphens and underscores
  in any position.
\<close>

definition domainName :: "string \<Rightarrow> bool" where
  "domainName h =
     (let parts = splitDots h;
          labels = (if last parts = [] then butlast parts else parts)
      in labels \<noteq> [] \<and>
         list_all (\<lambda>l. 1 \<le> length l \<and> length l \<le> 63 \<and>
                     list_all (\<lambda>c. lower c \<or> inRange CHR ''A'' CHR ''Z'' c \<or> digit c \<or>
                                   c = CHR ''-'' \<or> c = CHR ''_'') l) labels)"

definition exRangeHost :: PluginConfig where
  "exRangeHost =
     \<lparr>DefaultConfig = zeroBeegfsConfig,
      FileSystemSpecificConfigs = [\<lparr>SysMgmtdHost = ''1/23.'', Config = zeroBeegfsConfig\<rparr>]\<rparr>"

section \<open>Properties of the override operation\<close>

lemma overwriteFrom_nonnil:
  assumes "BeegfsClientConf c = Some cm"
  shows "\<exists>c'. overwriteFrom c w = Inr c'"
  using assms by (simp add: overwriteFrom_def Let_def split: option.splits)

lemma overwriteFrom_list_fields:
  assumes "overwriteFrom c w = Inr c'"
  shows "ConnInterfaces c' =
           (if len (ConnInterfaces w) \<noteq> 0 then Some (elems (ConnInterfaces w)) else ConnInterfaces c)"
    and "ConnNetFilter c' =
           (if len (ConnNetFilter w) \<noteq> 0 then Some (elems (ConnNetFilter w)) else ConnNetFilter c)"
    and "ConnTcpOnlyFilter c' =
           (if len (ConnTcpOnlyFilter w) \<noteq> 0 then Some (elems (ConnTcpOnlyFilter w))
            else ConnTcpOnlyFilter c)"
    and "connAuth c' = (if connAuth w \<noteq> '''' then connAuth w else connAuth c)"
  using assms
  by (auto simp: overwriteFrom_def Let_def split: option.splits if_splits)

lemma overwriteFrom_lookup:
  assumes "overwriteFrom c w = Inr c'"
  shows "lookup (BeegfsClientConf c') k =
           (case lookup (BeegfsClientConf w) k of
              Some v \<Rightarrow> Some v
            | None \<Rightarrow> lookup (BeegfsClientConf c) k)"
  using assms
  by (auto simp: overwriteFrom_def Let_def lookup_def map_add_def dom_def
           split: option.splits if_splits)

text \<open>
  C2. Map-valued fields merge key by key and list-valued fields are replaced wholesale,
  for every pair of fragments. The receiver \<open>beegfsConfig{}\<close> (no \<open>beegfsClientConf\<close> key in
  the file, hence a nil map) merged with a fragment that sets one client option is a pair
  the operation does not merge: the store into the nil map panics.
\<close>

theorem overwriteFrom_nil_receiver_panics:
  "overwriteFrom zeroBeegfsConfig (zeroBeegfsConfig\<lparr>BeegfsClientConf := Some [''b'' \<mapsto> ''2'']\<rparr>)
     = Inl NilMapAssignment"
  by (simp add: overwriteFrom_def zeroBeegfsConfig_def len_def)

section \<open>Validation\<close>

lemma find_SomeD: "find P xs = Some x \<Longrightarrow> P x \<and> x \<in> set xs"
  by (auto simp: find_Some_iff)

lemma validateFilters_ok:
  "validateFilters v6 cs = Inr () \<longleftrightarrow>
     (\<forall>c\<in>set cs. (\<forall>x\<in>set (elems (ConnNetFilter c)). \<not> invalidFilter v6 x) \<and>
                  (\<forall>x\<in>set (elems (ConnTcpOnlyFilter c)). \<not> invalidFilter v6 x))"
  by (induction cs) (auto simp: find_None_iff split: option.splits dest: find_SomeD)

lemma validateFilters_err:
  "validateFilters v6 cs = Inl e \<Longrightarrow>
     (\<exists>c\<in>set cs. \<exists>x. invalidFilter v6 x \<and>
        (e = InvalidConnNetFilter x \<and> x \<in> set (elems (ConnNetFilter c)) \<or>
         e = InvalidConnTCPOnlyFilter x \<and> x \<in> set (elems (ConnTcpOnlyFilter c))))"
proof (induction cs)
  case Nil
  then show ?case by simp
next
  case (Cons c cs)
  show ?case
  proof (cases "find (invalidFilter v6) (elems (ConnNetFilter c))")
    case (Some x)
    with Cons.prems have "e = InvalidConnNetFilter x" by simp
    moreover from Some have "invalidFilter v6 x" "x \<in> set (elems (ConnNetFilter c))"
      by (auto dest: find_SomeD)
    ultimately show ?thesis by auto
  next
    case None
    note general = None
    show ?thesis
    proof (cases "find (invalidFilter v6) (elems (ConnTcpOnlyFilter c))")
      case (Some x)
      with general Cons.prems have "e = InvalidConnTCPOnlyFilter x" by simp
      moreover from Some have "invalidFilter v6 x" "x \<in> set (elems (ConnTcpOnlyFilter c))"
        by (auto dest: find_SomeD)
      ultimately show ?thesis by auto
    next
      case None
      with general Cons.prems have "validateFilters v6 cs = Inl e" by simp
      from Cons.IH[OF this] show ?thesis by auto
    qed
  qed
qed

lemma four_Suc: "(4::nat) = Suc (Suc (Suc (Suc 0)))"
  by simp

subsection \<open>What the matchers leave\<close>

lemma rxClass_iff: "r \<in> set (rxClass P s) \<longleftrightarrow> (\<exists>c. s = c # r \<and> P c)"
  by (cases s) (auto simp: rxClass_def)

lemma rxSeq_iff: "r \<in> set (rxSeq a b s) \<longleftrightarrow> (\<exists>m. m \<in> set (a s) \<and> r \<in> set (b m))"
  by (auto simp: rxSeq_def)

lemma rxAlt_iff: "r \<in> set (rxAlt a b s) \<longleftrightarrow> r \<in> set (a s) \<or> r \<in> set (b s)"
  by (auto simp: rxAlt_def)

lemma rxOpt_iff: "r \<in> set (rxOpt a s) \<longleftrightarrow> r = s \<or> r \<in> set (a s)"
  by (auto simp: rxOpt_def)

lemma rxUpTo_class:
  "r \<in> set (rxUpTo n (rxClass P) s) \<longleftrightarrow>
     (\<exists>pre. s = pre @ r \<and> length pre \<le> n \<and> list_all P pre)"
proof (induction n arbitrary: s)
  case 0
  then show ?case by auto
next
  case (Suc n)
  show ?case
  proof
    assume "r \<in> set (rxUpTo (Suc n) (rxClass P) s)"
    then consider "r = s" | m where "m \<in> set (rxClass P s)" "r \<in> set (rxUpTo n (rxClass P) m)"
      by auto
    then show "\<exists>pre. s = pre @ r \<and> length pre \<le> Suc n \<and> list_all P pre"
    proof cases
      case 1
      then have "s = [] @ r \<and> length ([] :: string) \<le> Suc n \<and> list_all P []"
        by simp
      then show ?thesis by blast
    next
      case 2
      from 2(1) obtain c where c: "s = c # m" "P c"
        by (auto simp: rxClass_iff)
      from 2(2) Suc.IH obtain pre where "m = pre @ r" "length pre \<le> n" "list_all P pre"
        by blast
      with c have "s = (c # pre) @ r \<and> length (c # pre) \<le> Suc n \<and> list_all P (c # pre)"
        by simp
      then show ?thesis by blast
    qed
  next
    assume "\<exists>pre. s = pre @ r \<and> length pre \<le> Suc n \<and> list_all P pre"
    then obtain pre where pre: "s = pre @ r" "length pre \<le> Suc n" "list_all P pre"
      by blast
    show "r \<in> set (rxUpTo (Suc n) (rxClass P) s)"
    proof (cases pre)
      case Nil
      with pre show ?thesis by simp
    next
      case (Cons c rest)
      with pre have "pre @ r = c # (rest @ r)" "P c" "rest @ r = rest @ r \<and> length rest \<le> n \<and> list_all P rest"
        by simp_all
      then have "rest @ r \<in> set (rxClass P s)" "r \<in> set (rxUpTo n (rxClass P) (rest @ r))"
        using pre(1) Suc.IH[of "rest @ r"] by (auto simp: rxClass_iff)
      then show ?thesis by auto
    qed
  qed
qed

lemma rxPlus_class:
  "r \<in> set (rxPlus (rxClass P) s) \<longleftrightarrow> (\<exists>ds. ds \<noteq> [] \<and> list_all P ds \<and> s = ds @ r)"
proof
  assume "r \<in> set (rxPlus (rxClass P) s)"
  then obtain m where m: "m \<in> set (rxClass P s)" "r \<in> set (rxUpTo (length s) (rxClass P) m)"
    by (auto simp: rxPlus_def)
  from m(1) obtain c where c: "s = c # m" "P c"
    by (auto simp: rxClass_iff)
  from m(2) obtain pre where "m = pre @ r" "list_all P pre"
    by (auto simp: rxUpTo_class)
  with c have "c # pre \<noteq> [] \<and> list_all P (c # pre) \<and> s = (c # pre) @ r"
    by simp
  then show "\<exists>ds. ds \<noteq> [] \<and> list_all P ds \<and> s = ds @ r"
    by blast
next
  assume "\<exists>ds. ds \<noteq> [] \<and> list_all P ds \<and> s = ds @ r"
  then obtain c pre where d: "s = (c # pre) @ r" "P c" "list_all P pre"
    by (auto simp: neq_Nil_conv)
  then have "pre @ r \<in> set (rxClass P s)"
    by (simp add: rxClass_iff)
  moreover have "pre @ r = pre @ r \<and> length pre \<le> length s \<and> list_all P pre"
    using d by simp
  then have "r \<in> set (rxUpTo (length s) (rxClass P) (pre @ r))"
    unfolding rxUpTo_class by blast
  ultimately show "r \<in> set (rxPlus (rxClass P) s)"
    by (auto simp: rxPlus_def)
qed

text \<open>Repetition of a matcher that takes a label and its dot.\<close>

lemma rxUpTo_labels:
  assumes a: "\<And>s r. r \<in> set (a s) \<longleftrightarrow> (\<exists>l. lab l \<and> s = l @ CHR ''.'' # r)"
  shows "r \<in> set (rxUpTo n a s) \<longleftrightarrow>
     (\<exists>ls. length ls \<le> n \<and> list_all lab ls \<and> s = concat (map (\<lambda>l. l @ ''.'') ls) @ r)"
proof (induction n arbitrary: s)
  case 0
  then show ?case by auto
next
  case (Suc n)
  show ?case
  proof
    assume "r \<in> set (rxUpTo (Suc n) a s)"
    then consider "r = s" | m where "m \<in> set (a s)" "r \<in> set (rxUpTo n a m)"
      by auto
    then show "\<exists>ls. length ls \<le> Suc n \<and> list_all lab ls \<and> s = concat (map (\<lambda>l. l @ ''.'') ls) @ r"
    proof cases
      case 1
      then have "length ([] :: string list) \<le> Suc n \<and> list_all lab [] \<and>
          s = concat (map (\<lambda>l. l @ ''.'') []) @ r"
        by simp
      then show ?thesis by blast
    next
      case 2
      from 2(1) a obtain l where l: "lab l" "s = l @ CHR ''.'' # m"
        by blast
      from 2(2) Suc.IH obtain ls where
        "length ls \<le> n" "list_all lab ls" "m = concat (map (\<lambda>l. l @ ''.'') ls) @ r"
        by blast
      with l have "length (l # ls) \<le> Suc n \<and> list_all lab (l # ls) \<and>
          s = concat (map (\<lambda>l. l @ ''.'') (l # ls)) @ r"
        by simp
      then show ?thesis by blast
    qed
  next
    assume "\<exists>ls. length ls \<le> Suc n \<and> list_all lab ls \<and> s = concat (map (\<lambda>l. l @ ''.'') ls) @ r"
    then obtain ls where ls: "length ls \<le> Suc n" "list_all lab ls"
        "s = concat (map (\<lambda>l. l @ ''.'') ls) @ r"
      by blast
    show "r \<in> set (rxUpTo (Suc n) a s)"
    proof (cases ls)
      case Nil
      with ls show ?thesis by simp
    next
      case (Cons l rest)
      let ?m = "concat (map (\<lambda>l. l @ ''.'') rest) @ r"
      from Cons ls have "lab l" "s = l @ CHR ''.'' # ?m"
        by simp_all
      then have "?m \<in> set (a s)"
        using a by blast
      moreover from Cons ls have "length rest \<le> n \<and> list_all lab rest \<and> ?m = ?m"
        by simp
      then have "r \<in> set (rxUpTo n a ?m)"
        using Suc.IH[of ?m] by blast
      ultimately show ?thesis by auto
    qed
  qed
qed

lemma length_labels: "length ls \<le> length (concat (map (\<lambda>l. l @ ''.'') ls))"
  by (induction ls) auto

lemma rxPlus_labels:
  assumes a: "\<And>s r. r \<in> set (a s) \<longleftrightarrow> (\<exists>l. lab l \<and> s = l @ CHR ''.'' # r)"
  shows "r \<in> set (rxPlus a s) \<longleftrightarrow>
     (\<exists>ls. ls \<noteq> [] \<and> list_all lab ls \<and> s = concat (map (\<lambda>l. l @ ''.'') ls) @ r)"
proof
  assume "r \<in> set (rxPlus a s)"
  then obtain m where m: "m \<in> set (a s)" "r \<in> set (rxUpTo (length s) a m)"
    by (auto simp: rxPlus_def)
  from m(1) a obtain l where l: "lab l" "s = l @ CHR ''.'' # m"
    by blast
  from m(2) rxUpTo_labels[of a lab, OF a] obtain ls where
    "list_all lab ls" "m = concat (map (\<lambda>l. l @ ''.'') ls) @ r"
    by blast
  with l have "l # ls \<noteq> [] \<and> list_all lab (l # ls) \<and>
      s = concat (map (\<lambda>l. l @ ''.'') (l # ls)) @ r"
    by simp
  then show "\<exists>ls. ls \<noteq> [] \<and> list_all lab ls \<and> s = concat (map (\<lambda>l. l @ ''.'') ls) @ r"
    by blast
next
  assume "\<exists>ls. ls \<noteq> [] \<and> list_all lab ls \<and> s = concat (map (\<lambda>l. l @ ''.'') ls) @ r"
  then obtain l rest where ls: "lab l" "list_all lab rest"
      "s = concat (map (\<lambda>l. l @ ''.'') (l # rest)) @ r"
    by (auto simp: neq_Nil_conv)
  let ?m = "concat (map (\<lambda>l. l @ ''.'') rest) @ r"
  from ls have s: "s = l @ CHR ''.'' # ?m"
    by simp
  with ls(1) a have "?m \<in> set (a s)"
    by blast
  moreover have "length rest \<le> length s"
    using length_labels[of rest] s by simp
  with ls(2) have "r \<in> set (rxUpTo (length s) a ?m)"
    using rxUpTo_labels[of a lab r "length s" ?m, OF a] by blast
  ultimately show "r \<in> set (rxPlus a s)"
    by (auto simp: rxPlus_def)
qed


subsection \<open>Labels\<close>

lemma ends_of_list:
  assumes "2 \<le> length l"
  shows "l = hd l # butlast (tl l) @ [last l]"
proof -
  from assms obtain c rest where l: "l = c # rest"
    by (cases l) auto
  with assms have "rest \<noteq> []"
    by auto
  with l show ?thesis
    by simp
qed

lemma three_elements: "length xs = Suc (Suc (Suc 0)) \<Longrightarrow> \<exists>x a b. xs = [x, a, b]"
  by (auto simp: length_Suc_conv)

lemma nameLabel_iff:
  "nameLabel l \<longleftrightarrow>
     (\<exists>c pre d. l = c # pre @ [d] \<and> (c = CHR ''_'' \<or> lower c \<or> digit c) \<and> length pre \<le> 61 \<and>
        list_all (\<lambda>c. c = CHR ''_'' \<or> lower c \<or> digit c \<or> c = CHR ''-'') pre \<and>
        (lower d \<or> digit d))"
proof
  assume n: "nameLabel l"
  then have "2 \<le> length l"
    by (simp add: nameLabel_def)
  from ends_of_list[OF this] have l: "l = hd l # butlast (tl l) @ [last l]" .
  from n have "length l \<le> 63"
    by (simp add: nameLabel_def)
  then have "length (butlast (tl l)) \<le> 61"
    by simp
  with n l have "l = hd l # butlast (tl l) @ [last l] \<and>
        (hd l = CHR ''_'' \<or> lower (hd l) \<or> digit (hd l)) \<and> length (butlast (tl l)) \<le> 61 \<and>
        list_all (\<lambda>c. c = CHR ''_'' \<or> lower c \<or> digit c \<or> c = CHR ''-'') (butlast (tl l)) \<and>
        (lower (last l) \<or> digit (last l))"
    by (simp add: nameLabel_def)
  then show "\<exists>c pre d. l = c # pre @ [d] \<and> (c = CHR ''_'' \<or> lower c \<or> digit c) \<and> length pre \<le> 61 \<and>
        list_all (\<lambda>c. c = CHR ''_'' \<or> lower c \<or> digit c \<or> c = CHR ''-'') pre \<and>
        (lower d \<or> digit d)"
    by blast
next
  assume "\<exists>c pre d. l = c # pre @ [d] \<and> (c = CHR ''_'' \<or> lower c \<or> digit c) \<and> length pre \<le> 61 \<and>
        list_all (\<lambda>c. c = CHR ''_'' \<or> lower c \<or> digit c \<or> c = CHR ''-'') pre \<and>
        (lower d \<or> digit d)"
  then show "nameLabel l"
    by (auto simp: nameLabel_def)
qed

lemma finalLabel_iff:
  "finalLabel t \<longleftrightarrow>
     (\<exists>c. lower c \<and>
        (t = [c] \<or>
         (\<exists>pre d. t = c # pre @ [d] \<and> length pre \<le> 61 \<and>
            list_all (\<lambda>c. lower c \<or> digit c \<or> c = CHR ''-'') pre \<and> (lower d \<or> digit d))))"
proof
  assume f: "finalLabel t"
  show "\<exists>c. lower c \<and>
        (t = [c] \<or>
         (\<exists>pre d. t = c # pre @ [d] \<and> length pre \<le> 61 \<and>
            list_all (\<lambda>c. lower c \<or> digit c \<or> c = CHR ''-'') pre \<and> (lower d \<or> digit d)))"
  proof (cases "length t = 1")
    case True
    then obtain c where "t = [c]"
      by (cases t) auto
    with f show ?thesis
      by (auto simp: finalLabel_def)
  next
    case False
    with f have "2 \<le> length t"
      by (simp add: finalLabel_def)
    from ends_of_list[OF this] have t: "t = hd t # butlast (tl t) @ [last t]" .
    from f have "length t \<le> 63"
      by (simp add: finalLabel_def)
    then have "length (butlast (tl t)) \<le> 61"
      by simp
    with f False t have "lower (hd t) \<and> t = hd t # butlast (tl t) @ [last t] \<and>
        length (butlast (tl t)) \<le> 61 \<and>
        list_all (\<lambda>c. lower c \<or> digit c \<or> c = CHR ''-'') (butlast (tl t)) \<and>
        (lower (last t) \<or> digit (last t))"
      by (simp add: finalLabel_def)
    then show ?thesis
      by blast
  qed
next
  assume "\<exists>c. lower c \<and>
        (t = [c] \<or>
         (\<exists>pre d. t = c # pre @ [d] \<and> length pre \<le> 61 \<and>
            list_all (\<lambda>c. lower c \<or> digit c \<or> c = CHR ''-'') pre \<and> (lower d \<or> digit d)))"
  then show "finalLabel t"
    by (auto simp: finalLabel_def)
qed

lemma rangeLabel_iff:
  "rangeLabel l \<longleftrightarrow>
     (\<exists>ds a b. ds \<noteq> [] \<and> list_all digit ds \<and> digit a \<and> digit b \<and> l = ds @ [CHR ''/'', a, b])"
proof
  assume r: "rangeLabel l"
  let ?n = "length l - 3"
  from r have len: "4 \<le> length l"
    by (simp add: rangeLabel_def)
  then have "length (drop ?n l) = Suc (Suc (Suc 0))"
    by simp
  from three_elements[OF this] obtain x a b where d: "drop ?n l = [x, a, b]"
    by blast
  have "l ! (?n + 0) = x" "l ! (?n + 1) = a" "l ! (?n + 2) = b"
    using d len nth_drop[of ?n l 0] nth_drop[of ?n l 1] nth_drop[of ?n l 2] by simp_all
  moreover from len have "?n + 1 = length l - 2" "?n + 2 = length l - 1"
    by simp_all
  ultimately have xab: "x = CHR ''/''" "digit a" "digit b"
    using r by (simp_all add: rangeLabel_def)
  have "l = take ?n l @ drop ?n l"
    by simp
  with d xab have "l = take ?n l @ [CHR ''/'', a, b]"
    by simp
  moreover from len have "take ?n l \<noteq> []"
    by auto
  moreover from r have "list_all digit (take ?n l)"
    by (simp add: rangeLabel_def)
  ultimately show "\<exists>ds a b. ds \<noteq> [] \<and> list_all digit ds \<and> digit a \<and> digit b \<and>
      l = ds @ [CHR ''/'', a, b]"
    using xab by blast
next
  assume "\<exists>ds a b. ds \<noteq> [] \<and> list_all digit ds \<and> digit a \<and> digit b \<and> l = ds @ [CHR ''/'', a, b]"
  then obtain ds a b where l: "ds \<noteq> []" "list_all digit ds" "digit a" "digit b"
      "l = ds @ [CHR ''/'', a, b]"
    by blast
  from l(1) have "1 \<le> length ds"
    by (cases ds) auto
  with l show "rangeLabel l"
    by (simp add: rangeLabel_def nth_append)
qed

lemma nameDot_iff:
  "r \<in> set (rxSeq (rxClass (\<lambda>c. c = CHR ''_'' \<or> lower c \<or> digit c))
            (rxSeq (rxUpTo 61 (rxClass (\<lambda>c. c = CHR ''_'' \<or> lower c \<or> digit c \<or> c = CHR ''-'')))
               (rxSeq (rxClass (\<lambda>c. lower c \<or> digit c)) (rxClass (chr CHR ''.'')))) s) \<longleftrightarrow>
   (\<exists>l. nameLabel l \<and> s = l @ CHR ''.'' # r)"
  (is "r \<in> set (rxSeq (rxClass ?F) (rxSeq (rxUpTo 61 (rxClass ?M)) (rxSeq (rxClass ?L) ?dot)) s) \<longleftrightarrow> _")
proof
  assume "r \<in> set (rxSeq (rxClass ?F) (rxSeq (rxUpTo 61 (rxClass ?M)) (rxSeq (rxClass ?L) ?dot)) s)"
  then obtain m1 m2 m3 where
    m: "m1 \<in> set (rxClass ?F s)" "m2 \<in> set (rxUpTo 61 (rxClass ?M) m1)"
       "m3 \<in> set (rxClass ?L m2)" "r \<in> set (rxClass (chr CHR ''.'') m3)"
    unfolding rxSeq_iff by blast
  from m(1) obtain c where c: "s = c # m1" "?F c"
    unfolding rxClass_iff by blast
  from m(2) obtain pre where pre: "m1 = pre @ m2" "length pre \<le> 61" "list_all ?M pre"
    unfolding rxUpTo_class by blast
  from m(3) obtain d where d: "m2 = d # m3" "?L d"
    unfolding rxClass_iff by blast
  from m(4) have dot: "m3 = CHR ''.'' # r"
    unfolding rxClass_iff chr_def by blast
  have "nameLabel (c # pre @ [d])"
    unfolding nameLabel_iff using c(2) pre(2,3) d(2) by blast
  moreover have "s = (c # pre @ [d]) @ CHR ''.'' # r"
    using c(1) pre(1) d(1) dot by simp
  ultimately show "\<exists>l. nameLabel l \<and> s = l @ CHR ''.'' # r"
    by blast
next
  assume "\<exists>l. nameLabel l \<and> s = l @ CHR ''.'' # r"
  then obtain c pre d where l: "s = (c # pre @ [d]) @ CHR ''.'' # r" "?F c" "length pre \<le> 61"
      "list_all ?M pre" "?L d"
    unfolding nameLabel_iff by blast
  have 1: "pre @ d # CHR ''.'' # r \<in> set (rxClass ?F s)"
    unfolding rxClass_iff using l(1,2) by simp
  have 2: "d # CHR ''.'' # r \<in> set (rxUpTo 61 (rxClass ?M) (pre @ d # CHR ''.'' # r))"
    unfolding rxUpTo_class using l(3,4) by blast
  have 3: "CHR ''.'' # r \<in> set (rxClass ?L (d # CHR ''.'' # r))"
    unfolding rxClass_iff using l(5) by simp
  have 4: "r \<in> set (rxClass (chr CHR ''.'') (CHR ''.'' # r))"
    unfolding rxClass_iff chr_def by simp
  from 1 2 3 4 show "r \<in> set (rxSeq (rxClass ?F) (rxSeq (rxUpTo 61 (rxClass ?M)) (rxSeq (rxClass ?L) ?dot)) s)"
    unfolding rxSeq_iff by blast
qed

lemma rangeDot_iff:
  "r \<in> set (rxSeq
             (rxSeq (rxPlus (rxClass digit))
                (rxSeq (rxClass (chr CHR ''/'')) (rxSeq (rxClass digit) (rxClass digit))))
             (rxClass (chr CHR ''.'')) s) \<longleftrightarrow>
   (\<exists>l. rangeLabel l \<and> s = l @ CHR ''.'' # r)"
proof
  assume "r \<in> set (rxSeq
             (rxSeq (rxPlus (rxClass digit))
                (rxSeq (rxClass (chr CHR ''/'')) (rxSeq (rxClass digit) (rxClass digit))))
             (rxClass (chr CHR ''.'')) s)"
  then obtain m1 m2 m3 m4 where
    m: "m1 \<in> set (rxPlus (rxClass digit) s)" "m2 \<in> set (rxClass (chr CHR ''/'') m1)"
       "m3 \<in> set (rxClass digit m2)" "m4 \<in> set (rxClass digit m3)"
       "r \<in> set (rxClass (chr CHR ''.'') m4)"
    unfolding rxSeq_iff by blast
  from m(1) obtain ds where ds: "ds \<noteq> []" "list_all digit ds" "s = ds @ m1"
    unfolding rxPlus_class by blast
  from m(2) have m1: "m1 = CHR ''/'' # m2"
    unfolding rxClass_iff chr_def by blast
  from m(3) obtain a where a: "m2 = a # m3" "digit a"
    unfolding rxClass_iff by blast
  from m(4) obtain b where b: "m3 = b # m4" "digit b"
    unfolding rxClass_iff by blast
  from m(5) have m4: "m4 = CHR ''.'' # r"
    unfolding rxClass_iff chr_def by blast
  have "rangeLabel (ds @ [CHR ''/'', a, b])"
    unfolding rangeLabel_iff using ds(1,2) a(2) b(2) by blast
  moreover have "s = (ds @ [CHR ''/'', a, b]) @ CHR ''.'' # r"
    using ds(3) m1 a(1) b(1) m4 by simp
  ultimately show "\<exists>l. rangeLabel l \<and> s = l @ CHR ''.'' # r"
    by blast
next
  assume "\<exists>l. rangeLabel l \<and> s = l @ CHR ''.'' # r"
  then obtain ds a b where l: "s = (ds @ [CHR ''/'', a, b]) @ CHR ''.'' # r" "ds \<noteq> []"
      "list_all digit ds" "digit a" "digit b"
    unfolding rangeLabel_iff by blast
  have 1: "CHR ''/'' # a # b # CHR ''.'' # r \<in> set (rxPlus (rxClass digit) s)"
    unfolding rxPlus_class using l(1,2,3) by auto
  have 2: "a # b # CHR ''.'' # r \<in> set (rxClass (chr CHR ''/'') (CHR ''/'' # a # b # CHR ''.'' # r))"
    unfolding rxClass_iff chr_def by simp
  have 3: "b # CHR ''.'' # r \<in> set (rxClass digit (a # b # CHR ''.'' # r))"
    unfolding rxClass_iff using l(4) by simp
  have 4: "CHR ''.'' # r \<in> set (rxClass digit (b # CHR ''.'' # r))"
    unfolding rxClass_iff using l(5) by simp
  have 5: "r \<in> set (rxClass (chr CHR ''.'') (CHR ''.'' # r))"
    unfolding rxClass_iff chr_def by simp
  from 1 2 3 4 5 show "r \<in> set (rxSeq
             (rxSeq (rxPlus (rxClass digit))
                (rxSeq (rxClass (chr CHR ''/'')) (rxSeq (rxClass digit) (rxClass digit))))
             (rxClass (chr CHR ''.'')) s)"
    unfolding rxSeq_iff by blast
qed

lemma finalMatcher_iff:
  "[] \<in> set (rxSeq (rxClass lower)
             (rxOpt
                (rxSeq (rxUpTo 61 (rxClass (\<lambda>c. lower c \<or> digit c \<or> c = CHR ''-'')))
                   (rxClass (\<lambda>c. lower c \<or> digit c)))) t) \<longleftrightarrow> finalLabel t"
  (is "[] \<in> set (rxSeq (rxClass lower) (rxOpt (rxSeq (rxUpTo 61 (rxClass ?C)) (rxClass ?L))) t) \<longleftrightarrow> _")
proof
  assume "[] \<in> set (rxSeq (rxClass lower) (rxOpt (rxSeq (rxUpTo 61 (rxClass ?C)) (rxClass ?L))) t)"
  then obtain m1 where m: "m1 \<in> set (rxClass lower t)"
      "[] = m1 \<or> [] \<in> set (rxSeq (rxUpTo 61 (rxClass ?C)) (rxClass ?L) m1)"
    unfolding rxSeq_iff[of _ "rxClass lower"] rxOpt_iff by blast
  from m(1) obtain c where c: "t = c # m1" "lower c"
    unfolding rxClass_iff by blast
  from m(2) show "finalLabel t"
  proof
    assume "[] = m1"
    with c show ?thesis
      unfolding finalLabel_iff by blast
  next
    assume "[] \<in> set (rxSeq (rxUpTo 61 (rxClass ?C)) (rxClass ?L) m1)"
    then obtain m2 where m2: "m2 \<in> set (rxUpTo 61 (rxClass ?C) m1)" "[] \<in> set (rxClass ?L m2)"
      unfolding rxSeq_iff by blast
    from m2(1) obtain pre where pre: "m1 = pre @ m2" "length pre \<le> 61" "list_all ?C pre"
      unfolding rxUpTo_class by blast
    from m2(2) obtain d where d: "m2 = [d]" "?L d"
      unfolding rxClass_iff by blast
    from c pre d have "lower c \<and> t = c # pre @ [d] \<and> length pre \<le> 61 \<and> list_all ?C pre \<and> ?L d"
      by simp
    then show ?thesis
      unfolding finalLabel_iff by blast
  qed
next
  assume "finalLabel t"
  then obtain c where c: "lower c"
      "t = [c] \<or> (\<exists>pre d. t = c # pre @ [d] \<and> length pre \<le> 61 \<and> list_all ?C pre \<and> ?L d)"
    unfolding finalLabel_iff by blast
  from c(2) show "[] \<in> set (rxSeq (rxClass lower) (rxOpt (rxSeq (rxUpTo 61 (rxClass ?C)) (rxClass ?L))) t)"
  proof
    assume "t = [c]"
    with c(1) have "[] \<in> set (rxClass lower t)"
      unfolding rxClass_iff by simp
    then show ?thesis
      unfolding rxSeq_iff[of _ "rxClass lower"] rxOpt_iff by blast
  next
    assume "\<exists>pre d. t = c # pre @ [d] \<and> length pre \<le> 61 \<and> list_all ?C pre \<and> ?L d"
    then obtain pre d where p: "t = c # pre @ [d]" "length pre \<le> 61" "list_all ?C pre" "?L d"
      by blast
    have 1: "pre @ [d] \<in> set (rxClass lower t)"
      unfolding rxClass_iff using p(1) c(1) by simp
    have 2: "[d] \<in> set (rxUpTo 61 (rxClass ?C) (pre @ [d]))"
      unfolding rxUpTo_class using p(2,3) by blast
    have 3: "[] \<in> set (rxClass ?L [d])"
      unfolding rxClass_iff using p(4) by simp
    from 2 3 have "[] \<in> set (rxSeq (rxUpTo 61 (rxClass ?C)) (rxClass ?L) (pre @ [d]))"
      unfolding rxSeq_iff by blast
    with 1 show ?thesis
      unfolding rxSeq_iff[of _ "rxClass lower"] rxOpt_iff by blast
  qed
qed

text \<open>The pattern matches the strings made of labels with their dots and a last part.\<close>

lemma domainRegex_labels:
  "MatchString domainRegex h \<longleftrightarrow>
     (\<exists>ls t. ls \<noteq> [] \<and> list_all (\<lambda>l. nameLabel l \<or> rangeLabel l) ls \<and>
        (t = [] \<or> finalLabel t) \<and> h = concat (map (\<lambda>l. l @ ''.'') ls) @ t)"
proof -
  let ?A = "rxAlt
             (rxSeq (rxClass (\<lambda>c. c = CHR ''_'' \<or> lower c \<or> digit c))
                (rxSeq (rxUpTo 61 (rxClass (\<lambda>c. c = CHR ''_'' \<or> lower c \<or> digit c \<or> c = CHR ''-'')))
                   (rxSeq (rxClass (\<lambda>c. lower c \<or> digit c)) (rxClass (chr CHR ''.'')))))
             (rxSeq
                (rxSeq (rxPlus (rxClass digit))
                   (rxSeq (rxClass (chr CHR ''/'')) (rxSeq (rxClass digit) (rxClass digit))))
                (rxClass (chr CHR ''.'')))"
  let ?T = "rxSeq (rxClass lower)
             (rxOpt
                (rxSeq (rxUpTo 61 (rxClass (\<lambda>c. lower c \<or> digit c \<or> c = CHR ''-'')))
                   (rxClass (\<lambda>c. lower c \<or> digit c))))"
  have a: "r \<in> set (?A s) \<longleftrightarrow> (\<exists>l. (nameLabel l \<or> rangeLabel l) \<and> s = l @ CHR ''.'' # r)" for s r
    unfolding rxAlt_iff nameDot_iff rangeDot_iff by blast
  have plus: "r \<in> set (rxPlus ?A s) \<longleftrightarrow>
     (\<exists>ls. ls \<noteq> [] \<and> list_all (\<lambda>l. nameLabel l \<or> rangeLabel l) ls \<and>
        s = concat (map (\<lambda>l. l @ ''.'') ls) @ r)" for s r
    by (rule rxPlus_labels) (rule a)
  have "MatchString domainRegex h \<longleftrightarrow> (\<exists>m. m \<in> set (rxPlus ?A h) \<and> ([] = m \<or> [] \<in> set (?T m)))"
    unfolding MatchString_def domainRegex_def rxSeq_iff[of _ "rxPlus ?A"] rxOpt_iff ..
  also have "\<dots> \<longleftrightarrow> (\<exists>m. m \<in> set (rxPlus ?A h) \<and> (m = [] \<or> finalLabel m))"
    unfolding finalMatcher_iff by auto
  also have "\<dots> \<longleftrightarrow> (\<exists>ls t. ls \<noteq> [] \<and> list_all (\<lambda>l. nameLabel l \<or> rangeLabel l) ls \<and>
        (t = [] \<or> finalLabel t) \<and> h = concat (map (\<lambda>l. l @ ''.'') ls) @ t)"
    unfolding plus by blast
  finally show ?thesis .
qed

subsection \<open>Cutting at the dots\<close>

lemma splitDots_nonempty [simp]: "splitDots s \<noteq> []"
  by (induction s) auto

lemma splitDots_dotfree: "CHR ''.'' \<notin> set t \<Longrightarrow> splitDots t = [t]"
  by (induction t) auto

lemma splitDots_label:
  "CHR ''.'' \<notin> set l \<Longrightarrow> splitDots (l @ CHR ''.'' # r) = l # splitDots r"
  by (induction l) auto

lemma splitDots_labels:
  assumes "\<forall>l \<in> set ls. CHR ''.'' \<notin> set l" "CHR ''.'' \<notin> set t"
  shows "splitDots (concat (map (\<lambda>l. l @ ''.'') ls) @ t) = ls @ [t]"
  using assms
proof (induction ls)
  case Nil
  then show ?case by (simp add: splitDots_dotfree)
next
  case (Cons l ls)
  then have "splitDots (l @ CHR ''.'' # (concat (map (\<lambda>l. l @ ''.'') ls) @ t)) =
      l # splitDots (concat (map (\<lambda>l. l @ ''.'') ls) @ t)"
    by (intro splitDots_label) simp
  with Cons show ?case by simp
qed

lemma join_splitDots:
  "concat (map (\<lambda>l. l @ ''.'') (butlast (splitDots s))) @ last (splitDots s) = s"
proof (induction s)
  case Nil
  then show ?case by simp
next
  case (Cons c s)
  obtain p ps where ps: "splitDots s = p # ps"
    by (cases "splitDots s") auto
  show ?case
  proof (cases "c = CHR ''.''")
    case True
    with Cons ps show ?thesis by simp
  next
    case False
    with Cons ps show ?thesis by (cases ps) auto
  qed
qed

lemma not_dot: "\<not> lower CHR ''.''" "\<not> digit CHR ''.''"
  by (simp_all add: lower_def digit_def inRange_def)

lemma nameLabel_dotfree:
  assumes "nameLabel l"
  shows "CHR ''.'' \<notin> set l"
proof -
  from assms obtain c pre d where l: "l = c # pre @ [d]"
      "c = CHR ''_'' \<or> lower c \<or> digit c"
      "list_all (\<lambda>c. c = CHR ''_'' \<or> lower c \<or> digit c \<or> c = CHR ''-'') pre"
      "lower d \<or> digit d"
    unfolding nameLabel_iff by blast
  from l(2) not_dot have "c \<noteq> CHR ''.''"
    by auto
  moreover from l(4) not_dot have "d \<noteq> CHR ''.''"
    by auto
  moreover have "CHR ''.'' \<notin> set pre"
  proof
    assume "CHR ''.'' \<in> set pre"
    with l(3) have "CHR ''.'' = CHR ''_'' \<or> lower CHR ''.'' \<or> digit CHR ''.'' \<or> CHR ''.'' = CHR ''-''"
      unfolding list_all_iff by blast
    with not_dot show False
      by simp
  qed
  ultimately show ?thesis
    unfolding l(1) by simp
qed

lemma rangeLabel_dotfree:
  assumes "rangeLabel l"
  shows "CHR ''.'' \<notin> set l"
proof -
  from assms obtain ds a b where l: "l = ds @ [CHR ''/'', a, b]" "list_all digit ds"
      "digit a" "digit b"
    unfolding rangeLabel_iff by blast
  from l(3) not_dot have "a \<noteq> CHR ''.''"
    by auto
  moreover from l(4) not_dot have "b \<noteq> CHR ''.''"
    by auto
  moreover have "CHR ''.'' \<notin> set ds"
  proof
    assume "CHR ''.'' \<in> set ds"
    with l(2) have "digit CHR ''.''"
      unfolding list_all_iff by blast
    with not_dot show False
      by simp
  qed
  ultimately show ?thesis
    unfolding l(1) by simp
qed

lemma finalLabel_dotfree:
  assumes "finalLabel t"
  shows "CHR ''.'' \<notin> set t"
proof -
  from assms obtain c where c: "lower c"
      "t = [c] \<or> (\<exists>pre d. t = c # pre @ [d] \<and> length pre \<le> 61 \<and>
            list_all (\<lambda>c. lower c \<or> digit c \<or> c = CHR ''-'') pre \<and> (lower d \<or> digit d))"
    unfolding finalLabel_iff by blast
  from c(1) not_dot have cd: "c \<noteq> CHR ''.''"
    by auto
  from c(2) show ?thesis
  proof
    assume "t = [c]"
    with cd show ?thesis by simp
  next
    assume "\<exists>pre d. t = c # pre @ [d] \<and> length pre \<le> 61 \<and>
            list_all (\<lambda>c. lower c \<or> digit c \<or> c = CHR ''-'') pre \<and> (lower d \<or> digit d)"
    then obtain pre d where t: "t = c # pre @ [d]"
        "list_all (\<lambda>c. lower c \<or> digit c \<or> c = CHR ''-'') pre" "lower d \<or> digit d"
      by blast
    from t(3) not_dot have "d \<noteq> CHR ''.''"
      by auto
    moreover have "CHR ''.'' \<notin> set pre"
    proof
      assume "CHR ''.'' \<in> set pre"
      with t(2) have "lower CHR ''.'' \<or> digit CHR ''.'' \<or> CHR ''.'' = CHR ''-''"
        unfolding list_all_iff by blast
      with not_dot show False
        by simp
    qed
    ultimately show ?thesis
      unfolding t(1) using cd by simp
  qed
qed

lemma domainShape_labels:
  "domainShape h \<longleftrightarrow>
     (\<exists>ls t. ls \<noteq> [] \<and> list_all (\<lambda>l. nameLabel l \<or> rangeLabel l) ls \<and>
        (t = [] \<or> finalLabel t) \<and> h = concat (map (\<lambda>l. l @ ''.'') ls) @ t)"
proof
  assume d: "domainShape h"
  let ?ls = "butlast (splitDots h)" and ?t = "last (splitDots h)"
  from d have "2 \<le> length (splitDots h)"
    by (simp add: domainShape_def Let_def)
  then have "?ls \<noteq> []"
    by (cases "splitDots h") auto
  moreover from d have "list_all (\<lambda>l. nameLabel l \<or> rangeLabel l) ?ls" "?t = [] \<or> finalLabel ?t"
    by (simp_all add: domainShape_def Let_def)
  moreover have "h = concat (map (\<lambda>l. l @ ''.'') ?ls) @ ?t"
    by (simp only: join_splitDots)
  ultimately show "\<exists>ls t. ls \<noteq> [] \<and> list_all (\<lambda>l. nameLabel l \<or> rangeLabel l) ls \<and>
        (t = [] \<or> finalLabel t) \<and> h = concat (map (\<lambda>l. l @ ''.'') ls) @ t"
    by blast
next
  assume "\<exists>ls t. ls \<noteq> [] \<and> list_all (\<lambda>l. nameLabel l \<or> rangeLabel l) ls \<and>
        (t = [] \<or> finalLabel t) \<and> h = concat (map (\<lambda>l. l @ ''.'') ls) @ t"
  then obtain ls t where e: "ls \<noteq> []" "list_all (\<lambda>l. nameLabel l \<or> rangeLabel l) ls"
      "t = [] \<or> finalLabel t" "h = concat (map (\<lambda>l. l @ ''.'') ls) @ t"
    by blast
  from e(2) have "\<forall>l \<in> set ls. CHR ''.'' \<notin> set l"
    using nameLabel_dotfree rangeLabel_dotfree by (auto simp: list_all_iff)
  moreover from e(3) have "CHR ''.'' \<notin> set t"
    using finalLabel_dotfree by auto
  ultimately have s: "splitDots h = ls @ [t]"
    unfolding e(4) by (rule splitDots_labels)
  from e(1) have "2 \<le> length (ls @ [t])"
    by (cases ls) auto
  with e(2,3) show "domainShape h"
    by (simp add: domainShape_def Let_def s)
qed

text \<open>The pattern of \<open>validateConfig\<close> matches exactly the strings of that shape.\<close>

lemma domainRegex_shape: "MatchString domainRegex h \<longleftrightarrow> domainShape h"
  unfolding domainRegex_labels domainShape_labels ..

text \<open>Without range labels, a string of that shape is a host name in the widest sense.\<close>

lemma nameLabel_chars:
  assumes "nameLabel l"
  shows "1 \<le> length l \<and> length l \<le> 63 \<and>
     list_all (\<lambda>c. lower c \<or> inRange CHR ''A'' CHR ''Z'' c \<or> digit c \<or> c = CHR ''-'' \<or> c = CHR ''_'') l"
proof -
  let ?W = "\<lambda>c. lower c \<or> inRange CHR ''A'' CHR ''Z'' c \<or> digit c \<or> c = CHR ''-'' \<or> c = CHR ''_''"
  from assms have len: "length l \<le> 63" "2 \<le> length l"
    by (simp_all add: nameLabel_def)
  from assms obtain c pre d where l: "l = c # pre @ [d]"
      "c = CHR ''_'' \<or> lower c \<or> digit c"
      "list_all (\<lambda>c. c = CHR ''_'' \<or> lower c \<or> digit c \<or> c = CHR ''-'') pre"
      "lower d \<or> digit d"
    unfolding nameLabel_iff by blast
  from l(2) have "?W c" by blast
  moreover from l(4) have "?W d" by blast
  moreover from l(3) have "list_all ?W pre"
    unfolding list_all_iff by blast
  ultimately have "list_all ?W l"
    unfolding l(1) by simp
  with len show ?thesis by simp
qed

lemma finalLabel_chars:
  assumes "finalLabel l"
  shows "1 \<le> length l \<and> length l \<le> 63 \<and>
     list_all (\<lambda>c. lower c \<or> inRange CHR ''A'' CHR ''Z'' c \<or> digit c \<or> c = CHR ''-'' \<or> c = CHR ''_'') l"
proof -
  let ?W = "\<lambda>c. lower c \<or> inRange CHR ''A'' CHR ''Z'' c \<or> digit c \<or> c = CHR ''-'' \<or> c = CHR ''_''"
  from assms have len: "length l \<le> 63" "1 \<le> length l"
    by (simp_all add: finalLabel_def)
  from assms obtain c where c: "lower c"
      "l = [c] \<or> (\<exists>pre d. l = c # pre @ [d] \<and> length pre \<le> 61 \<and>
            list_all (\<lambda>c. lower c \<or> digit c \<or> c = CHR ''-'') pre \<and> (lower d \<or> digit d))"
    unfolding finalLabel_iff by blast
  from c(1) have wc: "?W c" by blast
  from c(2) have "list_all ?W l"
  proof
    assume "l = [c]"
    with wc show ?thesis by simp
  next
    assume "\<exists>pre d. l = c # pre @ [d] \<and> length pre \<le> 61 \<and>
            list_all (\<lambda>c. lower c \<or> digit c \<or> c = CHR ''-'') pre \<and> (lower d \<or> digit d)"
    then obtain pre d where t: "l = c # pre @ [d]"
        "list_all (\<lambda>c. lower c \<or> digit c \<or> c = CHR ''-'') pre" "lower d \<or> digit d"
      by blast
    from t(3) have "?W d" by blast
    moreover from t(2) have "list_all ?W pre"
      unfolding list_all_iff by blast
    ultimately show ?thesis
      unfolding t(1) using wc by simp
  qed
  with len show ?thesis by simp
qed

lemma rangeLabel_slash: "rangeLabel l \<Longrightarrow> CHR ''/'' \<in> set l"
  unfolding rangeLabel_iff by auto

lemma domainShape_domainName:
  assumes "domainShape h" "CHR ''/'' \<notin> set h"
  shows "domainName h"
proof -
  from assms(1) obtain ls t where e: "ls \<noteq> []" "list_all (\<lambda>l. nameLabel l \<or> rangeLabel l) ls"
      "t = [] \<or> finalLabel t" "h = concat (map (\<lambda>l. l @ ''.'') ls) @ t"
    unfolding domainShape_labels by blast
  from e(2) have dots: "\<forall>l \<in> set ls. CHR ''.'' \<notin> set l"
    using nameLabel_dotfree rangeLabel_dotfree by (auto simp: list_all_iff)
  from e(3) have "CHR ''.'' \<notin> set t"
    using finalLabel_dotfree by auto
  with dots have s: "splitDots h = ls @ [t]"
    unfolding e(4) by (rule splitDots_labels)
  have "\<forall>l \<in> set ls. nameLabel l"
  proof
    fix l assume l: "l \<in> set ls"
    with e(4) have "set l \<subseteq> set h"
      by auto
    with assms(2) have "\<not> rangeLabel l"
      using rangeLabel_slash by blast
    with l e(2) show "nameLabel l"
      by (auto simp: list_all_iff)
  qed
  then have names: "list_all (\<lambda>l. 1 \<le> length l \<and> length l \<le> 63 \<and>
      list_all (\<lambda>c. lower c \<or> inRange CHR ''A'' CHR ''Z'' c \<or> digit c \<or> c = CHR ''-'' \<or> c = CHR ''_'') l) ls"
    using nameLabel_chars by (auto simp: list_all_iff)
  show ?thesis
  proof (cases "t = []")
    case True
    with s e(1) names show ?thesis
      by (simp add: domainName_def Let_def)
  next
    case False
    with e(3) have "finalLabel t"
      by simp
    from finalLabel_chars[OF this] False s e(1) names show ?thesis
      by (simp add: domainName_def Let_def)
  qed
qed

subsection \<open>What \<open>validateConfig\<close> rejects\<close>

lemma invalidHost_shape:
  "invalidHost v6 h \<longleftrightarrow> h \<noteq> ''localhost'' \<and> \<not> ParseIP v6 h \<and> \<not> domainShape h"
  by (simp add: invalidHost_def domainRegex_shape)

lemma invalidHost_example:
  "''not a host!!'' \<noteq> ''localhost'' \<and> \<not> ParseIP v6 ''not a host!!'' \<and> \<not> domainShape ''not a host!!''"
  by (simp add: ParseIP_def domainShape_def)

lemma invalidFilter_example:
  "\<not> ParseCIDR v6 ''999.999.999.999'' \<and> \<not> ParseIP v6 ''999.999.999.999''"
  by (simp add: ParseIP_def ParseCIDR_def parseIPv4_def dtoi_def inRange_def big_def four_Suc)

lemma validFilter_example: "ParseCIDR v6 ''10.0.0.0/24''"
  by (simp add: ParseCIDR_def parseIPv4_def dtoi_def inRange_def big_def four_Suc)

lemma leadingZero_example: "\<not> ParseIP v6 ''010.0.0.1''"
  by (simp add: ParseIP_def parseIPv4_def dtoi_def inRange_def big_def four_Suc)

lemma rangeHost_example:
  "''1/23.'' \<noteq> ''localhost'' \<and> \<not> ParseIP v6 ''1/23.'' \<and> domainShape ''1/23.'' \<and> \<not> domainName ''1/23.''"
  by (simp add: ParseIP_def parseIPv4_def dtoi_def inRange_def big_def four_Suc
        domainShape_def domainName_def rangeLabel_def nameLabel_def digit_def lower_def)

lemma validateConfig_outcome:
  fixes plConfig :: PluginConfig
  shows "(validateConfig v6 plConfig = Inr () \<longleftrightarrow>
           (\<forall>f\<in>set (FileSystemSpecificConfigs plConfig). \<not> invalidHost v6 (SysMgmtdHost f)) \<and>
           (\<forall>c\<in>set (DefaultConfig plConfig # map Config (FileSystemSpecificConfigs plConfig)).
              (\<forall>x\<in>set (elems (ConnNetFilter c)). \<not> invalidFilter v6 x) \<and>
              (\<forall>x\<in>set (elems (ConnTcpOnlyFilter c)). \<not> invalidFilter v6 x)))
       \<and> (\<forall>e. validateConfig v6 plConfig = Inl e \<longrightarrow>
             (\<exists>f\<in>set (FileSystemSpecificConfigs plConfig).
                 e = InvalidSysMgmtdHost (SysMgmtdHost f) \<and> invalidHost v6 (SysMgmtdHost f)) \<or>
             (\<exists>c\<in>set (DefaultConfig plConfig # map Config (FileSystemSpecificConfigs plConfig)).
                \<exists>x. invalidFilter v6 x \<and>
                  (e = InvalidConnNetFilter x \<and> x \<in> set (elems (ConnNetFilter c)) \<or>
                   e = InvalidConnTCPOnlyFilter x \<and> x \<in> set (elems (ConnTcpOnlyFilter c)))))"
proof -
  let ?bad = "find (\<lambda>config. invalidHost v6 (SysMgmtdHost config))
                (FileSystemSpecificConfigs plConfig)"
  let ?cs = "DefaultConfig plConfig # map Config (FileSystemSpecificConfigs plConfig)"
  have ok: "validateConfig v6 plConfig = Inr () \<longleftrightarrow>
           (\<forall>f\<in>set (FileSystemSpecificConfigs plConfig). \<not> invalidHost v6 (SysMgmtdHost f)) \<and>
           (\<forall>c\<in>set ?cs.
              (\<forall>x\<in>set (elems (ConnNetFilter c)). \<not> invalidFilter v6 x) \<and>
              (\<forall>x\<in>set (elems (ConnTcpOnlyFilter c)). \<not> invalidFilter v6 x))"
  proof (cases ?bad)
    case None
    then have "validateConfig v6 plConfig = validateFilters v6 ?cs"
      by (simp add: validateConfig_def)
    with None show ?thesis
      using validateFilters_ok[of v6 ?cs] by (simp add: find_None_iff)
  next
    case (Some f)
    then have "validateConfig v6 plConfig = Inl (InvalidSysMgmtdHost (SysMgmtdHost f))"
      by (simp add: validateConfig_def)
    moreover from Some
    have "invalidHost v6 (SysMgmtdHost f)" "f \<in> set (FileSystemSpecificConfigs plConfig)"
      by (auto dest: find_SomeD)
    ultimately show ?thesis by auto
  qed
  have err: "\<forall>e. validateConfig v6 plConfig = Inl e \<longrightarrow>
             (\<exists>f\<in>set (FileSystemSpecificConfigs plConfig).
                 e = InvalidSysMgmtdHost (SysMgmtdHost f) \<and> invalidHost v6 (SysMgmtdHost f)) \<or>
             (\<exists>c\<in>set ?cs.
                \<exists>x. invalidFilter v6 x \<and>
                  (e = InvalidConnNetFilter x \<and> x \<in> set (elems (ConnNetFilter c)) \<or>
                   e = InvalidConnTCPOnlyFilter x \<and> x \<in> set (elems (ConnTcpOnlyFilter c))))"
  proof (intro allI impI)
    fix e
    assume e: "validateConfig v6 plConfig = Inl e"
    show "(\<exists>f\<in>set (FileSystemSpecificConfigs plConfig).
                 e = InvalidSysMgmtdHost (SysMgmtdHost f) \<and> invalidHost v6 (SysMgmtdHost f)) \<or>
             (\<exists>c\<in>set ?cs.
                \<exists>x. invalidFilter v6 x \<and>
                  (e = InvalidConnNetFilter x \<and> x \<in> set (elems (ConnNetFilter c)) \<or>
                   e = InvalidConnTCPOnlyFilter x \<and> x \<in> set (elems (ConnTcpOnlyFilter c))))"
    proof (cases ?bad)
      case None
      with e have "validateFilters v6 ?cs = Inl e"
        by (simp add: validateConfig_def)
      from validateFilters_err[OF this] show ?thesis by blast
    next
      case (Some f)
      with e have "e = InvalidSysMgmtdHost (SysMgmtdHost f)"
        by (simp add: validateConfig_def)
      moreover from Some
      have "invalidHost v6 (SysMgmtdHost f)" "f \<in> set (FileSystemSpecificConfigs plConfig)"
        by (auto dest: find_SomeD)
      ultimately show ?thesis by blast
    qed
  qed
  from ok err show ?thesis
    by blast
qed

text \<open>
  C7, as the code has it. \<open>validateConfig\<close> succeeds exactly when every file system's host
  is \<open>localhost\<close>, or an IP literal, or of the shape \<open>domainShape\<close> (labels with their dots,
  then nothing or a final label: the strings the pattern matches), and every entry of
  \<open>ConnNetFilter\<close> and \<open>ConnTcpOnlyFilter\<close>, in the default configuration and in every file
  system's, is a CIDR or an IP literal. Otherwise it returns an error that names a host
  that is none of the three, or an entry that is neither, together with its field. A
  string of that shape without a slash is a host name (\<open>domainName\<close>). The host
  \<open>not a host!!\<close> and the filter \<open>999.999.999.999\<close> are rejected and the filter \<open>10.0.0.0/24\<close>
  is accepted, whatever the IPv6 parser does; an address with a leading zero is not an IP
  literal.
\<close>

theorem validateConfig_rejects:
  fixes plConfig :: PluginConfig
  shows "(validateConfig v6 plConfig = Inr () \<longleftrightarrow>
           (\<forall>f\<in>set (FileSystemSpecificConfigs plConfig).
              SysMgmtdHost f = ''localhost'' \<or> ParseIP v6 (SysMgmtdHost f) \<or>
              domainShape (SysMgmtdHost f)) \<and>
           (\<forall>c\<in>set (DefaultConfig plConfig # map Config (FileSystemSpecificConfigs plConfig)).
              (\<forall>x\<in>set (elems (ConnNetFilter c)). ParseCIDR v6 x \<or> ParseIP v6 x) \<and>
              (\<forall>x\<in>set (elems (ConnTcpOnlyFilter c)). ParseCIDR v6 x \<or> ParseIP v6 x)))
       \<and> (\<forall>e. validateConfig v6 plConfig = Inl e \<longrightarrow>
             (\<exists>f\<in>set (FileSystemSpecificConfigs plConfig).
                 e = InvalidSysMgmtdHost (SysMgmtdHost f) \<and> SysMgmtdHost f \<noteq> ''localhost'' \<and>
                 \<not> ParseIP v6 (SysMgmtdHost f) \<and> \<not> domainShape (SysMgmtdHost f)) \<or>
             (\<exists>c\<in>set (DefaultConfig plConfig # map Config (FileSystemSpecificConfigs plConfig)).
                \<exists>x. \<not> ParseCIDR v6 x \<and> \<not> ParseIP v6 x \<and>
                  (e = InvalidConnNetFilter x \<and> x \<in> set (elems (ConnNetFilter c)) \<or>
                   e = InvalidConnTCPOnlyFilter x \<and> x \<in> set (elems (ConnTcpOnlyFilter c)))))
       \<and> (\<forall>h. domainShape h \<and> CHR ''/'' \<notin> set h \<longrightarrow> domainName h)
       \<and> ''not a host!!'' \<noteq> ''localhost'' \<and> \<not> ParseIP v6 ''not a host!!''
       \<and> \<not> domainShape ''not a host!!''
       \<and> \<not> ParseCIDR v6 ''999.999.999.999'' \<and> \<not> ParseIP v6 ''999.999.999.999''
       \<and> ParseCIDR v6 ''10.0.0.0/24''
       \<and> \<not> ParseIP v6 ''010.0.0.1''"
proof -
  note outcome = validateConfig_outcome[of v6 plConfig, unfolded invalidHost_shape invalidFilter_def]
  have ok: "validateConfig v6 plConfig = Inr () \<longleftrightarrow>
           (\<forall>f\<in>set (FileSystemSpecificConfigs plConfig).
              SysMgmtdHost f = ''localhost'' \<or> ParseIP v6 (SysMgmtdHost f) \<or>
              domainShape (SysMgmtdHost f)) \<and>
           (\<forall>c\<in>set (DefaultConfig plConfig # map Config (FileSystemSpecificConfigs plConfig)).
              (\<forall>x\<in>set (elems (ConnNetFilter c)). ParseCIDR v6 x \<or> ParseIP v6 x) \<and>
              (\<forall>x\<in>set (elems (ConnTcpOnlyFilter c)). ParseCIDR v6 x \<or> ParseIP v6 x))"
    using outcome[THEN conjunct1] by (simp only: de_Morgan_conj not_not)
  have err: "\<forall>e. validateConfig v6 plConfig = Inl e \<longrightarrow>
             (\<exists>f\<in>set (FileSystemSpecificConfigs plConfig).
                 e = InvalidSysMgmtdHost (SysMgmtdHost f) \<and> SysMgmtdHost f \<noteq> ''localhost'' \<and>
                 \<not> ParseIP v6 (SysMgmtdHost f) \<and> \<not> domainShape (SysMgmtdHost f)) \<or>
             (\<exists>c\<in>set (DefaultConfig plConfig # map Config (FileSystemSpecificConfigs plConfig)).
                \<exists>x. \<not> ParseCIDR v6 x \<and> \<not> ParseIP v6 x \<and>
                  (e = InvalidConnNetFilter x \<and> x \<in> set (elems (ConnNetFilter c)) \<or>
                   e = InvalidConnTCPOnlyFilter x \<and> x \<in> set (elems (ConnTcpOnlyFilter c))))"
    using outcome[THEN conjunct2] by (simp only: conj_assoc)
  have names: "\<forall>h. domainShape h \<and> CHR ''/'' \<notin> set h \<longrightarrow> domainName h"
    using domainShape_domainName by blast
  from ok err names invalidHost_example[of v6] invalidFilter_example[of v6]
    validFilter_example[of v6] leadingZero_example[of v6]
  show ?thesis
    by (intro conjI) (elim conjE; assumption)+
qed

theorem validateConfig_rejects_witness:
  "validateConfig (\<lambda>_. False) exValidation = Inl (InvalidConnTCPOnlyFilter ''999.999.999.999'')
   \<and> validateConfig (\<lambda>_. False) (exValidation\<lparr>FileSystemSpecificConfigs := []\<rparr>) = Inr ()"
proof -
  have accepted: "validateConfig (\<lambda>_. False) (exValidation\<lparr>FileSystemSpecificConfigs := []\<rparr>) = Inr ()"
    using validateConfig_rejects[of "\<lambda>_. False" "exValidation\<lparr>FileSystemSpecificConfigs := []\<rparr>"]
    by (simp add: exValidation_def zeroBeegfsConfig_def elems_def)
  have "validateConfig (\<lambda>_. False) exValidation \<noteq> Inr ()"
    using validateConfig_rejects[of "\<lambda>_. False" exValidation]
    by (simp add: exValidation_def zeroBeegfsConfig_def elems_def)
  then obtain e where e: "validateConfig (\<lambda>_. False) exValidation = Inl e"
    by (cases "validateConfig (\<lambda>_. False) exValidation") auto
  with validateConfig_rejects[of "\<lambda>_. False" exValidation]
  have "e = InvalidConnTCPOnlyFilter ''999.999.999.999''"
    by (auto simp: exValidation_def zeroBeegfsConfig_def elems_def)
  with e accepted show ?thesis by simp
qed

text \<open>
  The claim as it is written fails for the host \<open>1/23.\<close>: it is not \<open>localhost\<close>, not an IP
  literal and not a host name, but a range label with its dot, which the pattern accepts
  by its second alternative.
\<close>

theorem range_label_host_accepted:
  "''1/23.'' \<noteq> ''localhost'' \<and> \<not> ParseIP (\<lambda>_. False) ''1/23.'' \<and> \<not> domainName ''1/23.'' \<and>
   validateConfig (\<lambda>_. False) exRangeHost = Inr ()"
proof -
  have "\<not> invalidHost (\<lambda>_. False) ''1/23.''"
    using rangeHost_example[of "\<lambda>_. False"] by (simp add: invalidHost_shape)
  then have "validateConfig (\<lambda>_. False) exRangeHost = Inr ()"
    by (simp add: validateConfig_def exRangeHost_def zeroBeegfsConfig_def elems_def)
  with rangeHost_example[of "\<lambda>_. False"] show ?thesis
    by simp
qed

section \<open>Stripping\<close>

lemma fold_delete_apply:
  "fold (\<lambda>k m. m(k := None)) ks m x = (if x \<in> set ks then None else m x)"
  by (induction ks arbitrary: m) auto

lemma stripBeegfsConfig_lookup:
  "lookup (BeegfsClientConf (stripBeegfsConfig c)) k =
     (if k \<in> set noEffectBeegfsConfOptions then None else lookup (BeegfsClientConf c) k)"
  by (cases "BeegfsClientConf c") (simp_all add: stripBeegfsConfig_def lookup_def fold_delete_apply)

lemma stripBeegfsConfig_fields:
  "ConnInterfaces (stripBeegfsConfig c) = ConnInterfaces c"
  "ConnNetFilter (stripBeegfsConfig c) = ConnNetFilter c"
  "ConnTcpOnlyFilter (stripBeegfsConfig c) = ConnTcpOnlyFilter c"
  "connAuth (stripBeegfsConfig c) = connAuth c"
  by (cases "BeegfsClientConf c"; simp add: stripBeegfsConfig_def)+




section \<open>Layering of the effective configuration\<close>

lemma override_None [simp]: "override a None = a" "override None b = b"
  by (simp_all add: override_def split: option.splits)

lemma override_Some [simp]: "override a (Some v) = Some v"
  by (simp add: override_def)

lemma override_assoc: "override (override a b) c = override a (override b c)"
  by (simp add: override_def split: option.splits)

lemma override_regular: "override w (override r w) = override r w"
  by (simp add: override_def split: option.splits)

lemma foldl_override: "foldl override a vs = override a (foldl override None vs)"
proof (induction vs arbitrary: a)
  case Nil
  show ?case by simp
next
  case (Cons v vs)
  have "foldl override a (v # vs) = override (override a v) (foldl override None vs)"
    using Cons.IH[of "override a v"] by simp
  also have "\<dots> = override a (override v (foldl override None vs))"
    by (rule override_assoc)
  also have "override v (foldl override None vs) = foldl override None (v # vs)"
    using Cons.IH[of v] by simp
  finally show ?case .
qed

lemma lastSet_Nil [simp]: "lastSet [] = None"
  by (simp add: lastSet_def)

lemma lastSet_Cons [simp]: "lastSet (v # vs) = override v (lastSet vs)"
  using foldl_override[of v vs] by (simp add: lastSet_def)

lemma lastSet_append [simp]: "lastSet (xs @ ys) = override (lastSet xs) (lastSet ys)"
  by (induction xs) (simp_all add: override_assoc)

lemma lastSet_None_iff: "lastSet vs = None \<longleftrightarrow> (\<forall>v\<in>set vs. v = None)"
  by (induction vs) (auto simp: override_def split: option.splits)

lemma hostViews_simps [simp]:
  "hostViews v h [] = []"
  "hostViews v h (f # fs) = (if SysMgmtdHost f = h then v (Config f) # hostViews v h fs else hostViews v h fs)"
  "hostViews v h (fs @ gs) = hostViews v h fs @ hostViews v h gs"
  by (simp_all add: hostViews_def)

lemma mergesViewD: "mergesView v \<Longrightarrow> overwriteFrom c w = Inr c' \<Longrightarrow> v c' = override (v c) (v w)"
  by (simp add: mergesView_def)

lemma overwriteMatching_views:
  assumes "mergesView v" and "overwriteMatching frag fs = Inr (had, fs')"
  shows "(had \<longleftrightarrow> (\<exists>f\<in>set fs. SysMgmtdHost f = SysMgmtdHost frag)) \<and>
         lastSet (hostViews v h fs') =
           override (lastSet (hostViews v h fs))
             (if had \<and> SysMgmtdHost frag = h then v (Config frag) else None)"
  using assms(2)
proof (induction fs arbitrary: had fs')
  case Nil
  then show ?case by simp
next
  case (Cons t ts)
  show ?case
  proof (cases "SysMgmtdHost t = SysMgmtdHost frag")
    case True
    with Cons.prems obtain c had0 ts' where
      c: "overwriteFrom (Config t) (Config frag) = Inr c" and
      rec: "overwriteMatching frag ts = Inr (had0, ts')" and
      res: "had = True" "fs' = t\<lparr>Config := c\<rparr> # ts'"
      by (auto split: sum.splits prod.splits)
    from Cons.IH[OF rec] have
      had0: "had0 \<longleftrightarrow> (\<exists>f\<in>set ts. SysMgmtdHost f = SysMgmtdHost frag)" and
      ih: "lastSet (hostViews v h ts') =
             override (lastSet (hostViews v h ts))
               (if had0 \<and> SysMgmtdHost frag = h then v (Config frag) else None)"
      by simp_all
    have vc: "v c = override (v (Config t)) (v (Config frag))"
      using mergesViewD[OF assms(1) c] .
    show ?thesis
    proof (cases "SysMgmtdHost frag = h")
      case False
      with True res ih show ?thesis by simp
    next
      case h: True
      show ?thesis
      proof (cases had0)
        case True
        with \<open>SysMgmtdHost t = SysMgmtdHost frag\<close> h res ih vc show ?thesis
          by (simp add: override_assoc override_regular)
      next
        case False
        with had0 h have "hostViews v h ts = []"
          by (auto simp: hostViews_def filter_empty_conv)
        with False \<open>SysMgmtdHost t = SysMgmtdHost frag\<close> h res ih vc show ?thesis
          by simp
      qed
    qed
  next
    case False
    with Cons.prems obtain had0 ts' where
      rec: "overwriteMatching frag ts = Inr (had0, ts')" and
      res: "had = had0" "fs' = t # ts'"
      by (auto split: sum.splits prod.splits)
    from Cons.IH[OF rec] False res show ?thesis
      by (auto simp: override_assoc)
  qed
qed

lemma overwriteFileSystemSpecificConfigs_views:
  assumes "mergesView v" and "overwriteFileSystemSpecificConfigs fs frags = Inr fs'"
  shows "lastSet (hostViews v h fs') =
           override (lastSet (hostViews v h fs)) (lastSet (hostViews v h frags))"
  using assms(2)
proof (induction frags arbitrary: fs)
  case Nil
  then show ?case by simp
next
  case (Cons frag rest)
  from Cons.prems obtain had fs1 where
    m: "overwriteMatching frag fs = Inr (had, fs1)" and
    rec: "overwriteFileSystemSpecificConfigs (if had then fs1 else fs1 @ [frag]) rest = Inr fs'"
    by (auto split: sum.splits prod.splits)
  from overwriteMatching_views[OF assms(1) m, of h]
  have step: "lastSet (hostViews v h (if had then fs1 else fs1 @ [frag])) =
                override (lastSet (hostViews v h fs))
                  (if SysMgmtdHost frag = h then v (Config frag) else None)"
    by (cases had) simp_all
  from Cons.IH[OF rec] step show ?case
    by (simp add: override_assoc)
qed

lemma applyNodeSpecificConfigs_views:
  assumes "mergesView v" and "applyNodeSpecificConfigs nodeID pc nodes = Inr pc'"
  shows "v (DefaultConfig pc') =
           override (v (DefaultConfig pc))
             (lastSet (map (\<lambda>n. v (DefaultConfig n)) (filter (\<lambda>n. nodeID \<in> set (NodeList n)) nodes)))"
    and "lastSet (hostViews v h (FileSystemSpecificConfigs pc')) =
           override (lastSet (hostViews v h (FileSystemSpecificConfigs pc)))
             (lastSet (hostViews v h
                (concat (map FileSystemSpecificConfigs (filter (\<lambda>n. nodeID \<in> set (NodeList n)) nodes)))))"
  using assms(2)
proof (induction nodes arbitrary: pc)
  case Nil
  {
    case 1 then show ?case by simp
  next
    case 2 then show ?case by simp
  }
next
  case (Cons n rest)
  {
    case 1
    show ?case
    proof (cases "nodeID \<in> set (NodeList n)")
      case False
      with 1 Cons.IH(1)[of pc] show ?thesis by simp
    next
      case True
      with 1 obtain d fs where
        d: "overwriteFrom (DefaultConfig pc) (DefaultConfig n) = Inr d" and
        fs: "overwriteFileSystemSpecificConfigs (FileSystemSpecificConfigs pc)
               (FileSystemSpecificConfigs n) = Inr fs" and
        rec: "applyNodeSpecificConfigs nodeID
                \<lparr>DefaultConfig = d, FileSystemSpecificConfigs = fs\<rparr> rest = Inr pc'"
        by (auto split: sum.splits)
      from Cons.IH(1)[OF rec] mergesViewD[OF assms(1) d] True show ?thesis
        by (simp add: override_assoc)
    qed
  next
    case 2
    show ?case
    proof (cases "nodeID \<in> set (NodeList n)")
      case False
      with 2 Cons.IH(2)[of pc] show ?thesis by simp
    next
      case True
      with 2 obtain d fs where
        d: "overwriteFrom (DefaultConfig pc) (DefaultConfig n) = Inr d" and
        fs: "overwriteFileSystemSpecificConfigs (FileSystemSpecificConfigs pc)
               (FileSystemSpecificConfigs n) = Inr fs" and
        rec: "applyNodeSpecificConfigs nodeID
                \<lparr>DefaultConfig = d, FileSystemSpecificConfigs = fs\<rparr> rest = Inr pc'"
        by (auto split: sum.splits)
      from Cons.IH(2)[OF rec] overwriteFileSystemSpecificConfigs_views[OF assms(1) fs, of h] True
      show ?thesis
        by (simp add: override_assoc)
    qed
  }
qed


subsection \<open>The views of a configuration\<close>

lemma setList_merges: 
  assumes "overwriteFrom c w = Inr c'"
  shows "setList (ConnInterfaces c') = override (setList (ConnInterfaces c)) (setList (ConnInterfaces w))"
    and "setList (ConnNetFilter c') = override (setList (ConnNetFilter c)) (setList (ConnNetFilter w))"
    and "setList (ConnTcpOnlyFilter c') =
           override (setList (ConnTcpOnlyFilter c)) (setList (ConnTcpOnlyFilter w))"
    and "setSecret (connAuth c') = override (setSecret (connAuth c)) (setSecret (connAuth w))"
  using overwriteFrom_list_fields[OF assms]
  by (simp_all add: setList_def setSecret_def len_def elems_def split: option.splits)

lemma mergesView_fields:
  "mergesView (\<lambda>c. setList (ConnInterfaces c))"
  "mergesView (\<lambda>c. setList (ConnNetFilter c))"
  "mergesView (\<lambda>c. setList (ConnTcpOnlyFilter c))"
  "mergesView (\<lambda>c. setSecret (connAuth c))"
  "mergesView (\<lambda>c. lookup (BeegfsClientConf c) k)"
  unfolding mergesView_def
  by (auto simp: setList_merges overwriteFrom_lookup override_def split: option.splits)

subsection \<open>Squashing\<close>

lemma overwriteFrom_keeps_map:
  assumes "overwriteFrom c w = Inr c'" and "BeegfsClientConf c \<noteq> None"
  shows "BeegfsClientConf c' \<noteq> None"
  using assms by (auto simp: overwriteFrom_def Let_def split: option.splits if_splits)

lemma squashLoop_total:
  assumes "BeegfsClientConf rc \<noteq> None"
  shows "\<exists>eff. squashLoop h rc fs = Inr eff"
  using assms
proof (induction fs arbitrary: rc)
  case Nil
  then show ?case by simp
next
  case (Cons f fs)
  show ?case
  proof (cases "h = SysMgmtdHost f")
    case False
    with Cons.IH[OF Cons.prems] show ?thesis by simp
  next
    case True
    from Cons.prems obtain rc' where rc': "overwriteFrom rc (Config f) = Inr rc'"
      using overwriteFrom_nonnil[of rc _ "Config f"] by auto
    from Cons.IH[OF overwriteFrom_keeps_map[OF rc' Cons.prems]] True rc' show ?thesis
      by simp
  qed
qed

lemma squashLoop_views:
  assumes "mergesView v" and "squashLoop h rc fs = Inr eff"
  shows "v eff = override (v rc) (lastSet (hostViews v h fs))"
  using assms(2)
proof (induction fs arbitrary: rc)
  case Nil
  then show ?case by simp
next
  case (Cons f fs)
  show ?case
  proof (cases "h = SysMgmtdHost f")
    case False
    with Cons.prems Cons.IH[of rc] show ?thesis by simp
  next
    case True
    with Cons.prems obtain rc' where
      rc': "overwriteFrom rc (Config f) = Inr rc'" and rec: "squashLoop h rc' fs = Inr eff"
      by (auto split: sum.splits)
    from Cons.IH[OF rec] mergesViewD[OF assms(1) rc'] True show ?thesis
      by (simp add: override_assoc)
  qed
qed

lemma squashConfigForSysMgmtdHost_total:
  "\<exists>eff. squashConfigForSysMgmtdHost h cfg = Inr eff"
proof -
  have nn: "BeegfsClientConf newBeegfsConfig \<noteq> None"
    by (simp add: newBeegfsConfig_def)
  then obtain rc where rc: "overwriteFrom newBeegfsConfig (DefaultConfig cfg) = Inr rc"
    using overwriteFrom_nonnil[of newBeegfsConfig _ "DefaultConfig cfg"] by auto
  from squashLoop_total[OF overwriteFrom_keeps_map[OF rc nn], of h "FileSystemSpecificConfigs cfg"] rc
  show ?thesis
    by (simp add: squashConfigForSysMgmtdHost_def)
qed

lemma squashConfigForSysMgmtdHost_views:
  assumes "mergesView v" and "squashConfigForSysMgmtdHost h cfg = Inr eff"
  shows "v eff = override (override (v newBeegfsConfig) (v (DefaultConfig cfg)))
                  (lastSet (hostViews v h (FileSystemSpecificConfigs cfg)))"
proof -
  from assms(2) obtain rc where
    rc: "overwriteFrom newBeegfsConfig (DefaultConfig cfg) = Inr rc" and
    loop: "squashLoop h rc (FileSystemSpecificConfigs cfg) = Inr eff"
    by (auto simp: squashConfigForSysMgmtdHost_def split: sum.splits)
  from squashLoop_views[OF assms(1) loop] mergesViewD[OF assms(1) rc] show ?thesis
    by simp
qed

subsection \<open>Authentication entries\<close>

lemma setConnAuth_None: "setConnAuth ca fs = None \<longleftrightarrow> (\<forall>f\<in>set fs. SysMgmtdHost f \<noteq> caSysMgmtdHost ca)"
  by (induction fs) auto

lemma setConnAuth_secrets:
  assumes "setConnAuth ca fs = Some fs'"
  shows "secretsOf h fs' =
           (if caSysMgmtdHost ca = h then caConnAuth ca # tl (secretsOf h fs) else secretsOf h fs)"
  using assms
proof (induction fs arbitrary: fs')
  case Nil
  then show ?case by simp
next
  case (Cons f fs)
  show ?case
  proof (cases "caSysMgmtdHost ca = SysMgmtdHost f")
    case True
    with Cons.prems show ?thesis by (auto simp: secretsOf_def)
  next
    case False
    with Cons.prems obtain fs0 where fs0: "setConnAuth ca fs = Some fs0" "fs' = f # fs0"
      by auto
    from Cons.IH[OF fs0(1)] fs0(2) False show ?thesis
      by (auto simp: secretsOf_def)
  qed
qed

lemma setConnAuth_views:
  assumes "setConnAuth ca fs = Some fs'" and "\<And>c s. v (c\<lparr>connAuth := s\<rparr>) = v c"
  shows "hostViews v h fs' = hostViews v h fs"
  using assms(1)
proof (induction fs arbitrary: fs')
  case Nil
  then show ?case by simp
next
  case (Cons f fs)
  then show ?case
    by (cases "caSysMgmtdHost ca = SysMgmtdHost f") (auto simp: assms(2))
qed

lemma applyConnAuths_views:
  assumes "\<And>c s. v (c\<lparr>connAuth := s\<rparr>) = v c" and "v zeroBeegfsConfig = None"
  shows "lastSet (hostViews v h (applyConnAuths auths fs)) = lastSet (hostViews v h fs)"
proof (induction auths arbitrary: fs)
  case Nil
  show ?case by simp
next
  case (Cons ca rest)
  show ?case
  proof (cases "setConnAuth ca fs")
    case None
    then show ?thesis
      using Cons.IH[of "fs @ [\<lparr>SysMgmtdHost = caSysMgmtdHost ca,
                Config = zeroBeegfsConfig\<lparr>connAuth := caConnAuth ca\<rparr>\<rparr>]"] assms
      by simp
  next
    case (Some fs')
    then show ?thesis
      using Cons.IH[of fs'] setConnAuth_views[OF Some assms(1), of h] by simp
  qed
qed

lemma applyConnAuths_secrets:
  "secretsOf h (applyConnAuths auths fs) =
     foldl (\<lambda>xs s. s # tl xs) (secretsOf h fs)
       (map caConnAuth (filter (\<lambda>ca. caSysMgmtdHost ca = h) auths))"
proof (induction auths arbitrary: fs)
  case Nil
  show ?case by simp
next
  case (Cons ca rest)
  show ?case
  proof (cases "setConnAuth ca fs")
    case None
    then have no: "caSysMgmtdHost ca = h \<Longrightarrow> secretsOf h fs = []"
      by (auto simp: setConnAuth_None secretsOf_def filter_empty_conv)
    have "secretsOf h (fs @ [\<lparr>SysMgmtdHost = caSysMgmtdHost ca,
                Config = zeroBeegfsConfig\<lparr>connAuth := caConnAuth ca\<rparr>\<rparr>]) =
          (if caSysMgmtdHost ca = h then caConnAuth ca # tl (secretsOf h fs) else secretsOf h fs)"
      using no by (auto simp: secretsOf_def)
    with None Cons.IH show ?thesis by simp
  next
    case (Some fs')
    with Cons.IH[of fs'] setConnAuth_secrets[OF Some, of h] show ?thesis by simp
  qed
qed

lemma foldl_replace_head:
  "foldl (\<lambda>xs s. s # tl xs) xs ss = (if ss = [] then xs else last ss # tl xs)"
  by (induction ss arbitrary: xs) auto

lemma find_rev_last:
  "find P (rev xs) = (if filter P xs = [] then None else Some (last (filter P xs)))"
  by (induction xs rule: rev_induct) auto


subsection \<open>From the file to the effective configuration\<close>

lemma merged_views:
  assumes "mergesView v"
      and "applyNodeSpecificConfigs nodeID
             \<lparr>DefaultConfig = DefaultConfig raw,
              FileSystemSpecificConfigs = FileSystemSpecificConfigs raw\<rparr>
             (NodeSpecificConfigs raw) = Inr merged"
  shows "override (v (DefaultConfig merged)) (lastSet (hostViews v h (FileSystemSpecificConfigs merged)))
           = lastSet (map v (layers raw nodeID h))"
proof -
  have "map v (layers raw nodeID h) =
          v (DefaultConfig raw) # map (\<lambda>n. v (DefaultConfig n)) (nodeLayers raw nodeID) @
          hostViews v h (FileSystemSpecificConfigs raw) @
          hostViews v h (concat (map FileSystemSpecificConfigs (nodeLayers raw nodeID)))"
    by (simp add: layers_def hostViews_def comp_def)
  with applyNodeSpecificConfigs_views(1)[OF assms] applyNodeSpecificConfigs_views(2)[OF assms, of h]
  show ?thesis
    by (simp add: nodeLayers_def override_assoc)
qed

lemma hostViews_strip:
  assumes "\<And>c. v (stripBeegfsConfig c) = v c"
  shows "hostViews v h (FileSystemSpecificConfigs (stripConfig pl))
           = hostViews v h (FileSystemSpecificConfigs pl)"
  by (simp add: stripConfig_def hostViews_def filter_map comp_def assms)

lemma effective_view:
  assumes v: "mergesView v" "\<And>c. v (stripBeegfsConfig c) = v c"
             "\<And>c s. v (c\<lparr>connAuth := s\<rparr>) = v c" "v zeroBeegfsConfig = None"
             "v newBeegfsConfig = None"
      and merged: "applyNodeSpecificConfigs nodeID
             \<lparr>DefaultConfig = DefaultConfig raw,
              FileSystemSpecificConfigs = FileSystemSpecificConfigs raw\<rparr>
             (NodeSpecificConfigs raw) = Inr merged"
      and eff: "squashConfigForSysMgmtdHost h
             ((stripConfig merged)\<lparr>FileSystemSpecificConfigs :=
                 applyConnAuths auths (FileSystemSpecificConfigs (stripConfig merged))\<rparr>) = Inr eff"
  shows "v eff = lastSet (map v (layers raw nodeID h))"
proof -
  have "v eff = override (v (DefaultConfig (stripConfig merged)))
                  (lastSet (hostViews v h (applyConnAuths auths
                     (FileSystemSpecificConfigs (stripConfig merged)))))"
    using squashConfigForSysMgmtdHost_views[OF v(1) eff] v(5) by simp
  also have "\<dots> = override (v (DefaultConfig merged))
                      (lastSet (hostViews v h (FileSystemSpecificConfigs merged)))"
    using applyConnAuths_views[of v h auths, OF v(3) v(4)] hostViews_strip[of v h merged, OF v(2)]
    by (simp add: stripConfig_def v(2))
  also have "\<dots> = lastSet (map v (layers raw nodeID h))"
    by (rule merged_views[OF v(1) merged])
  finally show ?thesis .
qed

lemma overwriteFrom_none_or_set:
  assumes "overwriteFrom c w = Inr c'"
  shows "setList (ConnInterfaces c) = ConnInterfaces c \<Longrightarrow> setList (ConnInterfaces c') = ConnInterfaces c'"
    and "setList (ConnNetFilter c) = ConnNetFilter c \<Longrightarrow> setList (ConnNetFilter c') = ConnNetFilter c'"
    and "setList (ConnTcpOnlyFilter c) = ConnTcpOnlyFilter c \<Longrightarrow>
           setList (ConnTcpOnlyFilter c') = ConnTcpOnlyFilter c'"
  using overwriteFrom_list_fields[OF assms]
  by (auto simp: setList_def len_def elems_def split: option.splits if_splits)

lemma squashLoop_none_or_set:
  assumes "squashLoop h rc fs = Inr eff"
  shows "setList (ConnInterfaces rc) = ConnInterfaces rc \<Longrightarrow> setList (ConnInterfaces eff) = ConnInterfaces eff"
    and "setList (ConnNetFilter rc) = ConnNetFilter rc \<Longrightarrow> setList (ConnNetFilter eff) = ConnNetFilter eff"
    and "setList (ConnTcpOnlyFilter rc) = ConnTcpOnlyFilter rc \<Longrightarrow>
           setList (ConnTcpOnlyFilter eff) = ConnTcpOnlyFilter eff"
  using assms
proof (induction fs arbitrary: rc)
  case Nil
  {
    case 1 then show ?case by simp
  next
    case 2 then show ?case by simp
  next
    case 3 then show ?case by simp
  }
next
  case (Cons f fs)
  {
    case 1
    then show ?case
      using Cons.IH(1) overwriteFrom_none_or_set(1)
      by (cases "h = SysMgmtdHost f") (auto split: sum.splits)
  next
    case 2
    then show ?case
      using Cons.IH(2) overwriteFrom_none_or_set(2)
      by (cases "h = SysMgmtdHost f") (auto split: sum.splits)
  next
    case 3
    then show ?case
      using Cons.IH(3) overwriteFrom_none_or_set(3)
      by (cases "h = SysMgmtdHost f") (auto split: sum.splits)
  }
qed

lemma squash_none_or_set:
  assumes "squashConfigForSysMgmtdHost h cfg = Inr eff"
  shows "setList (ConnInterfaces eff) = ConnInterfaces eff"
    and "setList (ConnNetFilter eff) = ConnNetFilter eff"
    and "setList (ConnTcpOnlyFilter eff) = ConnTcpOnlyFilter eff"
proof -
  from assms obtain rc where
    rc: "overwriteFrom newBeegfsConfig (DefaultConfig cfg) = Inr rc" and
    loop: "squashLoop h rc (FileSystemSpecificConfigs cfg) = Inr eff"
    by (auto simp: squashConfigForSysMgmtdHost_def split: sum.splits)
  have new: "setList (ConnInterfaces newBeegfsConfig) = ConnInterfaces newBeegfsConfig"
    "setList (ConnNetFilter newBeegfsConfig) = ConnNetFilter newBeegfsConfig"
    "setList (ConnTcpOnlyFilter newBeegfsConfig) = ConnTcpOnlyFilter newBeegfsConfig"
    by (simp_all add: newBeegfsConfig_def setList_def len_def)
  show "setList (ConnInterfaces eff) = ConnInterfaces eff"
    by (rule squashLoop_none_or_set(1)[OF loop overwriteFrom_none_or_set(1)[OF rc new(1)]])
  show "setList (ConnNetFilter eff) = ConnNetFilter eff"
    by (rule squashLoop_none_or_set(2)[OF loop overwriteFrom_none_or_set(2)[OF rc new(2)]])
  show "setList (ConnTcpOnlyFilter eff) = ConnTcpOnlyFilter eff"
    by (rule squashLoop_none_or_set(3)[OF loop overwriteFrom_none_or_set(3)[OF rc new(3)]])
qed

lemma layers_noSecrets:
  assumes "noSecrets raw" and "c \<in> set (layers raw nodeID h)"
  shows "connAuth c = ''''"
  using assms
  by (auto simp: noSecrets_def layers_def nodeLayers_def list_all_iff)

lemma override_eq_None: "override a b = None \<longleftrightarrow> a = None \<and> b = None"
  by (auto simp: override_def split: option.splits)

lemma effective_secret:
  assumes "noSecrets raw"
      and merged: "applyNodeSpecificConfigs nodeID
             \<lparr>DefaultConfig = DefaultConfig raw,
              FileSystemSpecificConfigs = FileSystemSpecificConfigs raw\<rparr>
             (NodeSpecificConfigs raw) = Inr merged"
      and eff: "squashConfigForSysMgmtdHost h
             ((stripConfig merged)\<lparr>FileSystemSpecificConfigs :=
                 applyConnAuths auths (FileSystemSpecificConfigs (stripConfig merged))\<rparr>) = Inr eff"
  shows "connAuth eff = (case lastAuth auths h of None \<Rightarrow> '''' | Some ca \<Rightarrow> caConnAuth ca)"
proof -
  let ?v = "\<lambda>c. setSecret (connAuth c)"
  let ?fs = "FileSystemSpecificConfigs (stripConfig merged)"
  have mv: "mergesView ?v" by (rule mergesView_fields)
  have "lastSet (map ?v (layers raw nodeID h)) = None"
    using layers_noSecrets[OF assms(1)] by (auto simp: lastSet_None_iff setSecret_def)
  with merged_views[OF mv merged, of h]
  have d: "?v (DefaultConfig merged) = None"
    and f: "lastSet (hostViews ?v h (FileSystemSpecificConfigs merged)) = None"
    by (simp_all add: override_eq_None)
  have hv: "hostViews ?v h fs = map setSecret (secretsOf h fs)" for fs
    by (simp add: hostViews_def secretsOf_def)
  have "hostViews ?v h ?fs = hostViews ?v h (FileSystemSpecificConfigs merged)"
    by (rule hostViews_strip) (simp add: stripBeegfsConfig_fields)
  with f have "lastSet (map setSecret (secretsOf h ?fs)) = None"
    by (simp add: hv)
  then have empties: "\<forall>s\<in>set (secretsOf h ?fs). s = ''''"
    by (auto simp: lastSet_None_iff setSecret_def split: if_splits)
  have allNone: "lastSet (map setSecret xs) = None" if "\<forall>s\<in>set xs. s = ''''" for xs
    using that by (auto simp: lastSet_None_iff setSecret_def)
  have new: "?v newBeegfsConfig = None"
    by (simp add: newBeegfsConfig_def setSecret_def)
  have dflt: "?v (DefaultConfig (stripConfig merged)) = None"
    using d by (simp add: stripConfig_def stripBeegfsConfig_fields)
  have "?v eff = lastSet (map setSecret (secretsOf h (applyConnAuths auths ?fs)))"
    using squashConfigForSysMgmtdHost_views[OF mv eff] new dflt
    by (simp add: hv)
  also have "\<dots> = (case lastAuth auths h of None \<Rightarrow> None | Some ca \<Rightarrow> setSecret (caConnAuth ca))"
  proof (cases "filter (\<lambda>ca. caSysMgmtdHost ca = h) auths = []")
    case True
    then show ?thesis
      using allNone[OF empties]
      by (simp add: applyConnAuths_secrets lastAuth_def find_rev_last)
  next
    case False
    have "\<forall>s\<in>set (tl (secretsOf h ?fs)). s = ''''"
      using empties by (cases "secretsOf h ?fs") auto
    from allNone[OF this] False show ?thesis
      by (simp add: applyConnAuths_secrets foldl_replace_head lastAuth_def find_rev_last last_map)
  qed
  finally have "setSecret (connAuth eff) =
      (case lastAuth auths h of None \<Rightarrow> None | Some ca \<Rightarrow> setSecret (caConnAuth ca))" .
  then show ?thesis
    by (auto simp: setSecret_def split: option.splits if_splits)
qed

text \<open>
  C1 (as amended). Let a decoded configuration file carry no secret, and let
  \<open>parseConfigFromFile\<close> and then \<open>parseConnAuthFromFile\<close> return. Then
  \<open>squashConfigForSysMgmtdHost\<close> returns for every backend \<open>host\<close>, and what it returns is
  built from the layers of the file, lowest first (global default, defaults of the
  node-scoped fragments for \<open>nodeID\<close> in file order, global fragments for \<open>host\<close>,
  node-scoped fragments for \<open>host\<close> in file order): each list field is the last non-empty
  list, each client option outside the no-effect set is the last value given for its key
  (the no-effect options are absent). The authentication entries come last and assign:
  the secret is the secret of the last entry for \<open>host\<close>, empty or not, and empty without
  such an entry.
\<close>

theorem effective_config_layers:
  assumes "noSecrets raw"
      and "parseConfigFromFile v6 (Inr raw) nodeID = Inr cfg"
      and "parseConnAuthFromFile (Inr auths) cfg = Inr cfg'"
  shows "\<exists>eff. squashConfigForSysMgmtdHost host cfg' = Inr eff
           \<and> ConnInterfaces eff
               = lastSet (map (\<lambda>c. setList (ConnInterfaces c)) (layers raw nodeID host))
           \<and> ConnNetFilter eff
               = lastSet (map (\<lambda>c. setList (ConnNetFilter c)) (layers raw nodeID host))
           \<and> ConnTcpOnlyFilter eff
               = lastSet (map (\<lambda>c. setList (ConnTcpOnlyFilter c)) (layers raw nodeID host))
           \<and> (\<forall>k. lookup (BeegfsClientConf eff) k =
                 (if k \<in> set noEffectBeegfsConfOptions then None
                  else lastSet (map (\<lambda>c. lookup (BeegfsClientConf c) k) (layers raw nodeID host))))
           \<and> connAuth eff
               = (case lastAuth auths host of None \<Rightarrow> '''' | Some ca \<Rightarrow> caConnAuth ca)"
proof -
  from assms(2) obtain merged where
    merged: "applyNodeSpecificConfigs nodeID
             \<lparr>DefaultConfig = DefaultConfig raw,
              FileSystemSpecificConfigs = FileSystemSpecificConfigs raw\<rparr>
             (NodeSpecificConfigs raw) = Inr merged" and
    cfg: "cfg = stripConfig merged"
    by (auto simp: parseConfigFromFile_def split: sum.splits)
  from assms(3) cfg have cfg': "cfg' = (stripConfig merged)\<lparr>FileSystemSpecificConfigs :=
                 applyConnAuths auths (FileSystemSpecificConfigs (stripConfig merged))\<rparr>"
    by (simp add: parseConnAuthFromFile_def)
  obtain eff where eff: "squashConfigForSysMgmtdHost host cfg' = Inr eff"
    using squashConfigForSysMgmtdHost_total by blast
  note eff' = eff[unfolded cfg']
  have zero: "setList None = None"
    by (simp add: setList_def len_def)
  have ci: "ConnInterfaces eff = lastSet (map (\<lambda>c. setList (ConnInterfaces c)) (layers raw nodeID host))"
    using effective_view[OF mergesView_fields(1) _ _ _ _ merged eff']
          squash_none_or_set(1)[OF eff]
    by (simp add: stripBeegfsConfig_fields zeroBeegfsConfig_def newBeegfsConfig_def zero)
  have cn: "ConnNetFilter eff = lastSet (map (\<lambda>c. setList (ConnNetFilter c)) (layers raw nodeID host))"
    using effective_view[OF mergesView_fields(2) _ _ _ _ merged eff']
          squash_none_or_set(2)[OF eff]
    by (simp add: stripBeegfsConfig_fields zeroBeegfsConfig_def newBeegfsConfig_def zero)
  have ct: "ConnTcpOnlyFilter eff
              = lastSet (map (\<lambda>c. setList (ConnTcpOnlyFilter c)) (layers raw nodeID host))"
    using effective_view[OF mergesView_fields(3) _ _ _ _ merged eff']
          squash_none_or_set(3)[OF eff]
    by (simp add: stripBeegfsConfig_fields zeroBeegfsConfig_def newBeegfsConfig_def zero)
  have keys: "lookup (BeegfsClientConf eff) k =
                 (if k \<in> set noEffectBeegfsConfOptions then None
                  else lastSet (map (\<lambda>c. lookup (BeegfsClientConf c) k) (layers raw nodeID host)))" for k
  proof (cases "k \<in> set noEffectBeegfsConfOptions")
    case False
    let ?v = "\<lambda>c. lookup (BeegfsClientConf c) k"
    have "?v eff = lastSet (map ?v (layers raw nodeID host))"
    proof (rule effective_view[OF mergesView_fields(5)[of k] _ _ _ _ merged eff'])
      show "?v (stripBeegfsConfig c) = ?v c" for c
        using False by (simp add: stripBeegfsConfig_lookup)
      show "?v (c\<lparr>connAuth := s\<rparr>) = ?v c" for c s
        by simp
      show "?v zeroBeegfsConfig = None"
        by (simp add: zeroBeegfsConfig_def lookup_def)
      show "?v newBeegfsConfig = None"
        by (simp add: newBeegfsConfig_def lookup_def)
    qed
    with False show ?thesis by simp
  next
    case True
    let ?v = "\<lambda>c. lookup (BeegfsClientConf c) k"
    have "lastSet (hostViews ?v host (applyConnAuths auths (FileSystemSpecificConfigs (stripConfig merged))))
            = lastSet (hostViews ?v host (FileSystemSpecificConfigs (stripConfig merged)))"
      by (rule applyConnAuths_views) (simp_all add: zeroBeegfsConfig_def lookup_def)
    also have "\<dots> = None"
      using True
      by (auto simp: lastSet_None_iff hostViews_def stripConfig_def stripBeegfsConfig_lookup)
    finally have fs: "lastSet (hostViews ?v host
        (applyConnAuths auths (FileSystemSpecificConfigs (stripConfig merged)))) = None" .
    have new: "?v newBeegfsConfig = None"
      by (simp add: newBeegfsConfig_def lookup_def)
    have dflt: "?v (DefaultConfig (stripConfig merged)) = None"
      using True by (simp add: stripConfig_def stripBeegfsConfig_lookup)
    from squashConfigForSysMgmtdHost_views[OF mergesView_fields(5)[of k] eff'] fs new dflt True
    show ?thesis
      by simp
  qed
  have secret: "connAuth eff = (case lastAuth auths host of None \<Rightarrow> '''' | Some ca \<Rightarrow> caConnAuth ca)"
    by (rule effective_secret[OF assms(1) merged eff'])
  from eff ci cn ct keys secret show ?thesis by blast
qed

lemma validFilter_accepted: "\<not> invalidFilter v6 ''10.0.0.0/24''"
  by (simp add: invalidFilter_def validFilter_example)

lemma validHost_example: "\<not> invalidHost v6 ''10.0.0.1''"
  by (simp add: invalidHost_def ParseIP_def parseIPv4_def dtoi_def inRange_def big_def four_Suc)

theorem effective_config_layers_witness:
  "\<exists>cfg cfg' eff.
      parseConfigFromFile (\<lambda>_. False) (Inr exLayered) ''node1'' = Inr cfg
    \<and> parseConnAuthFromFile (Inr exAuths) cfg = Inr cfg'
    \<and> squashConfigForSysMgmtdHost ''10.0.0.1'' cfg' = Inr eff
    \<and> ConnInterfaces eff = Some [''ib1'']
    \<and> ConnNetFilter eff = Some [''10.0.0.0/24'']
    \<and> ConnTcpOnlyFilter eff = None
    \<and> lookup (BeegfsClientConf eff) ''connMaxInternodeNum'' = Some ''8''
    \<and> lookup (BeegfsClientConf eff) ''connUseRDMA'' = Some ''true''
    \<and> connAuth eff = ''secret''"
proof -
  have secrets: "noSecrets exLayered"
    by (simp add: noSecrets_def exLayered_def zeroBeegfsConfig_def)
  have "\<exists>cfg. parseConfigFromFile (\<lambda>_. False) (Inr exLayered) ''node1'' = Inr cfg"
    by (simp add: parseConfigFromFile_def exLayered_def zeroBeegfsConfig_def overwriteFrom_def
          len_def elems_def validateConfig_def validHost_example validFilter_accepted)
  then obtain cfg where cfg: "parseConfigFromFile (\<lambda>_. False) (Inr exLayered) ''node1'' = Inr cfg" ..
  obtain cfg' where cfg': "parseConnAuthFromFile (Inr exAuths) cfg = Inr cfg'"
    by (simp add: parseConnAuthFromFile_def)
  have ls: "layers exLayered ''node1'' ''10.0.0.1'' =
          [DefaultConfig exLayered, DefaultConfig (hd (NodeSpecificConfigs exLayered)),
           Config (hd (FileSystemSpecificConfigs exLayered))]"
    by (simp add: layers_def nodeLayers_def exLayered_def)
  from effective_config_layers[OF secrets cfg cfg', of "''10.0.0.1''"]
  obtain eff where eff: "squashConfigForSysMgmtdHost ''10.0.0.1'' cfg' = Inr eff"
    and ci: "ConnInterfaces eff
               = lastSet (map (\<lambda>c. setList (ConnInterfaces c)) (layers exLayered ''node1'' ''10.0.0.1''))"
    and cn: "ConnNetFilter eff
               = lastSet (map (\<lambda>c. setList (ConnNetFilter c)) (layers exLayered ''node1'' ''10.0.0.1''))"
    and ct: "ConnTcpOnlyFilter eff
               = lastSet (map (\<lambda>c. setList (ConnTcpOnlyFilter c)) (layers exLayered ''node1'' ''10.0.0.1''))"
    and keys: "\<And>k. lookup (BeegfsClientConf eff) k =
                 (if k \<in> set noEffectBeegfsConfOptions then None
                  else lastSet (map (\<lambda>c. lookup (BeegfsClientConf c) k) (layers exLayered ''node1'' ''10.0.0.1'')))"
    and secret: "connAuth eff
               = (case lastAuth exAuths ''10.0.0.1'' of None \<Rightarrow> '''' | Some ca \<Rightarrow> caConnAuth ca)"
    by blast
  have "ConnInterfaces eff = Some [''ib1'']"
    unfolding ci ls by (simp add: exLayered_def zeroBeegfsConfig_def setList_def len_def elems_def)
  moreover have "ConnNetFilter eff = Some [''10.0.0.0/24'']"
    unfolding cn ls by (simp add: exLayered_def zeroBeegfsConfig_def setList_def len_def elems_def)
  moreover have "ConnTcpOnlyFilter eff = None"
    unfolding ct ls by (simp add: exLayered_def zeroBeegfsConfig_def setList_def len_def elems_def)
  moreover have "lookup (BeegfsClientConf eff) ''connMaxInternodeNum'' = Some ''8''"
    unfolding keys ls
    by (simp add: exLayered_def zeroBeegfsConfig_def lookup_def noEffectBeegfsConfOptions_def)
  moreover have "lookup (BeegfsClientConf eff) ''connUseRDMA'' = Some ''true''"
    unfolding keys ls
    by (simp add: exLayered_def zeroBeegfsConfig_def lookup_def noEffectBeegfsConfOptions_def)
  moreover have "connAuth eff = ''secret''"
    unfolding secret by (simp add: lastAuth_def exAuths_def)
  ultimately show ?thesis
    using cfg cfg' eff by blast
qed

text \<open>
  The claim as stated fails at the authentication layer, where an entry with an empty
  secret is not left out: with the entries \<open>(10.0.0.1, secret)\<close> and \<open>(10.0.0.1, "")\<close>, in this
  order, the effective secret of \<open>10.0.0.1\<close> is empty, while the last non-empty secret of
  the entries is \<open>secret\<close>.
\<close>

theorem empty_secret_overwrites:
  "parseConfigFromFile (\<lambda>_. False) (Inr exEmptyFile) ''node1''
     = Inr \<lparr>DefaultConfig = zeroBeegfsConfig, FileSystemSpecificConfigs = []\<rparr>
   \<and> parseConnAuthFromFile (Inr exAuthTwice)
        \<lparr>DefaultConfig = zeroBeegfsConfig, FileSystemSpecificConfigs = []\<rparr>
     = Inr \<lparr>DefaultConfig = zeroBeegfsConfig,
            FileSystemSpecificConfigs = [\<lparr>SysMgmtdHost = ''10.0.0.1'', Config = zeroBeegfsConfig\<rparr>]\<rparr>
   \<and> squashConfigForSysMgmtdHost ''10.0.0.1''
        \<lparr>DefaultConfig = zeroBeegfsConfig,
         FileSystemSpecificConfigs = [\<lparr>SysMgmtdHost = ''10.0.0.1'', Config = zeroBeegfsConfig\<rparr>]\<rparr>
     = Inr (newBeegfsConfig\<lparr>connAuth := ''''\<rparr>)
   \<and> lastSet [setSecret ''secret'', setSecret ''''] = Some ''secret''"
  by (simp add: parseConfigFromFile_def exEmptyFile_def validateConfig_def stripConfig_def
        stripBeegfsConfig_def zeroBeegfsConfig_def elems_def parseConnAuthFromFile_def
        exAuthTwice_def squashConfigForSysMgmtdHost_def overwriteFrom_def newBeegfsConfig_def
        len_def setSecret_def)

section \<open>Cleaning rooted paths\<close>

lemma splitSlash_nonempty [simp]: "splitSlash s \<noteq> []"
  by (induction s) (auto split: list.splits)

lemma splitSlash_noslash: "CHR ''/'' \<notin> set e \<Longrightarrow> splitSlash e = [e]"
  by (induction e) auto

lemma splitSlash_append:
  "CHR ''/'' \<notin> set e \<Longrightarrow> splitSlash (e @ CHR ''/'' # r) = e # splitSlash r"
  by (induction e) auto

lemma splitSlash_append2:
  "splitSlash (a @ CHR ''/'' # b) = splitSlash a @ splitSlash b"
proof (induction a)
  case Nil
  show ?case by simp
next
  case (Cons c a)
  then show ?case
    by (cases "splitSlash a") auto
qed

lemma render_Nil [simp]: "render [] = ''/''"
  by (simp add: render_def)

lemma joinSlash_snoc: "st \<noteq> [] \<Longrightarrow> joinSlash (st @ [e]) = joinSlash st @ CHR ''/'' # e"
  by (induction st rule: joinSlash.induct) auto

lemma render_snoc:
  "render (st @ [e]) = (if st = [] then CHR ''/'' # e else render st @ CHR ''/'' # e)"
  by (simp add: render_def joinSlash_snoc)

lemma length_render_1: "list_all realElem st \<Longrightarrow> length (render st) = 1 \<longleftrightarrow> st = []"
  by (cases st rule: joinSlash.cases) (auto simp: render_def realElem_def)

lemma backLoop_element:
  assumes "CHR ''/'' \<notin> set e" and "c \<noteq> CHR ''/''" and "d \<le> length pre"
  shows "backLoop d (pre @ e) c = backLoop d pre (hd (e @ [c]))"
  using assms
proof (induction e arbitrary: c rule: rev_induct)
  case Nil
  show ?case by simp
next
  case (snoc x e)
  have "backLoop d (pre @ e @ [x]) c = backLoop d (pre @ e) x"
    using snoc.prems by (subst backLoop.simps) (simp add: butlast_append)
  also have "\<dots> = backLoop d pre (hd (e @ [x]))"
    using snoc.IH[of x] snoc.prems by auto
  finally show ?case
    by (cases e) simp_all
qed

lemma backtrack_render:
  assumes "list_all realElem (st @ [e])"
  shows "backtrack 1 (render (st @ [e])) = render st"
proof -
  from assms have e: "e \<noteq> []" "CHR ''/'' \<notin> set e"
    by (simp_all add: realElem_def)
  then obtain e0 x where ex: "e = e0 @ [x]"
    by (cases e rule: rev_cases) auto
  with e have x: "x \<noteq> CHR ''/''" "CHR ''/'' \<notin> set e0" by auto
  show ?thesis
  proof (cases "st = []")
    case True
    have "backtrack 1 (render (st @ [e])) = backLoop 1 (''/'' @ e0) x"
      using True ex by (simp add: backtrack_def render_def butlast_append)
    also have "\<dots> = backLoop 1 ''/'' (hd (e0 @ [x]))"
      by (rule backLoop_element) (use x in simp_all)
    also have "\<dots> = ''/''"
      by (subst backLoop.simps) simp
    finally show ?thesis using True by simp
  next
    case False
    have "backtrack 1 (render (st @ [e])) = backLoop 1 ((render st @ ''/'') @ e0) x"
      using False ex by (simp add: backtrack_def render_snoc butlast_append)
    also have "\<dots> = backLoop 1 (render st @ ''/'') (hd (e0 @ [x]))"
      by (rule backLoop_element) (use x in \<open>simp_all add: render_def\<close>)
    also have "\<dots> = backLoop 1 (render st) CHR ''/''"
      using x by (subst backLoop.simps) (cases e0; auto simp: render_def)
    also have "\<dots> = render st"
      by (subst backLoop.simps) simp
    finally show ?thesis .
  qed
qed

lemma stepElem_empty [simp]: "stepElem st [] = st"
  by (simp add: stepElem_def)

lemma stepElem_real: "realElem e \<Longrightarrow> stepElem st e = st @ [e]"
  by (auto simp: stepElem_def realElem_def)

lemma foldl_stepElem_element:
  assumes "c \<noteq> CHR ''/''"
  shows "foldl stepElem st (splitSlash (c # r1)) =
           foldl stepElem (stepElem st (c # takeWhile (\<lambda>x. x \<noteq> CHR ''/'') r1))
             (splitSlash (dropWhile (\<lambda>x. x \<noteq> CHR ''/'') r1))"
proof -
  let ?e = "c # takeWhile (\<lambda>x. x \<noteq> CHR ''/'') r1"
  let ?r2 = "dropWhile (\<lambda>x. x \<noteq> CHR ''/'') r1"
  have e: "CHR ''/'' \<notin> set ?e"
    using assms by (auto dest: set_takeWhileD)
  have split: "c # r1 = ?e @ ?r2" by simp
  show ?thesis
  proof (cases ?r2)
    case Nil
    with split have "c # r1 = ?e" by simp
    then have whole: "splitSlash (c # r1) = [?e]"
      using splitSlash_noslash[OF e] by simp
    have "splitSlash ?r2 = [[]]"
      using Nil by (simp del: dropWhile_eq_Nil_conv)
    with whole show ?thesis by simp
  next
    case (Cons x r3)
    then have "x = CHR ''/''"
      using hd_dropWhile[of "\<lambda>x. x \<noteq> CHR ''/''" r1] by auto
    with Cons split have "c # r1 = ?e @ CHR ''/'' # r3" by simp
    then have "splitSlash (c # r1) = ?e # splitSlash r3"
      using splitSlash_append[OF e, of r3] by simp
    with Cons \<open>x = CHR ''/''\<close> show ?thesis by simp
  qed
qed

lemma cleanLoop_rooted:
  assumes "list_all realElem st"
  shows "cleanLoop True rest (render st) 1 = render (foldl stepElem st (splitSlash rest)) \<and>
         list_all realElem (foldl stepElem st (splitSlash rest))"
  using assms
proof (induction rest arbitrary: st rule: length_induct)
  case (1 rest)
  note IH = "1.IH"[rule_format]
  note st = "1.prems"
  show ?case
  proof (cases rest)
    case Nil
    with st show ?thesis by simp
  next
    case (Cons c r1)
    show ?thesis
    proof (cases "c = CHR ''/''")
      case True
      with Cons IH[of r1 st] st show ?thesis by simp
    next
      case noslash: False
      let ?e = "c # takeWhile (\<lambda>x. x \<noteq> CHR ''/'') r1"
      let ?r2 = "dropWhile (\<lambda>x. x \<noteq> CHR ''/'') r1"
      note fold = foldl_stepElem_element[OF noslash, of st r1]
      show ?thesis
      proof (cases "c = CHR ''.'' \<and> (r1 = [] \<or> hd r1 = CHR ''/'')")
        case True
        then have tw: "takeWhile (\<lambda>x. x \<noteq> CHR ''/'') r1 = []" "?r2 = r1"
          by (cases r1; auto)+
        from True tw have "stepElem st ?e = st"
          by (simp add: stepElem_def)
        with fold tw have "foldl stepElem st (splitSlash rest) = foldl stepElem st (splitSlash r1)"
          using Cons by simp
        moreover have "cleanLoop True rest (render st) 1 = cleanLoop True r1 (render st) 1"
          using Cons True by simp
        ultimately show ?thesis
          using IH[of r1 st] st Cons by simp
      next
        case notdot: False
        show ?thesis
        proof (cases "c = CHR ''.'' \<and> hd r1 = CHR ''.'' \<and> (tl r1 = [] \<or> hd (tl r1) = CHR ''/'')")
          case True
          with notdot obtain r1' where r1: "r1 = CHR ''.'' # r1'" "r1' = [] \<or> hd r1' = CHR ''/''"
            by (cases r1) auto
          then have tw: "takeWhile (\<lambda>x. x \<noteq> CHR ''/'') r1 = ''.''" "?r2 = r1'"
            by (cases r1'; auto)+
          from True tw have "stepElem st ?e = butlast st"
            by (simp add: stepElem_def)
          with fold tw have f: "foldl stepElem st (splitSlash rest)
                                  = foldl stepElem (butlast st) (splitSlash r1')"
            using Cons by simp
          have bl: "list_all realElem (butlast st)"
            using st by (auto simp: list_all_iff dest: in_set_butlastD)
          have "cleanLoop True rest (render st) 1 = cleanLoop True r1' (render (butlast st)) 1"
          proof (cases "st = []")
            case True
            with Cons \<open>c = CHR ''.'' \<and> hd r1 = CHR ''.'' \<and> (tl r1 = [] \<or> hd (tl r1) = CHR ''/'')\<close>
              notdot r1 show ?thesis
              by simp
          next
            case False
            then obtain st0 x where s: "st = st0 @ [x]"
              by (cases st rule: rev_cases) auto
            with st have "backtrack 1 (render st) = render (butlast st)"
              using backtrack_render[of st0 x] by simp
            moreover have "length (render st) > 1"
              using False length_render_1[OF st] by (simp add: render_def)
            ultimately show ?thesis
              using Cons \<open>c = CHR ''.'' \<and> hd r1 = CHR ''.'' \<and> (tl r1 = [] \<or> hd (tl r1) = CHR ''/'')\<close>
                notdot r1
              by simp
          qed
          moreover have "length r1' < length rest"
            using Cons r1 by simp
          ultimately show ?thesis
            using IH[of r1' "butlast st"] bl f by simp
        next
          case notdotdot: False
          have e: "realElem ?e"
          proof -
            have "?e \<noteq> ''.''"
              using notdot by (cases r1) (auto split: if_splits)
            moreover have "?e \<noteq> ''..''"
            proof
              assume "?e = ''..''"
              then have "c = CHR ''.''" and t: "takeWhile (\<lambda>x. x \<noteq> CHR ''/'') r1 = ''.''"
                by simp_all
              then obtain r1' where "r1 = CHR ''.'' # r1'" "r1' = [] \<or> hd r1' = CHR ''/''"
                by (cases r1; cases "tl r1") (auto split: if_splits)
              with \<open>c = CHR ''.''\<close> notdotdot show False by auto
            qed
            moreover have "CHR ''/'' \<notin> set ?e"
              using noslash by (auto dest: set_takeWhileD)
            ultimately show ?thesis by (simp add: realElem_def)
          qed
          then have "stepElem st ?e = st @ [?e]"
            by (rule stepElem_real)
          with fold have f: "foldl stepElem st (splitSlash rest)
                               = foldl stepElem (st @ [?e]) (splitSlash ?r2)"
            using Cons by simp
          have out: "(if length (render st) \<noteq> 1 then render st @ ''/'' else render st) @ ?e
                       = render (st @ [?e])"
            using length_render_1[OF st] by (simp add: render_snoc)
          have "cleanLoop True (c # r1) (render st) 1 =
                  cleanLoop True ?r2
                    ((if length (render st) \<noteq> 1 then render st @ ''/'' else render st) @ ?e) 1"
            using noslash notdot notdotdot by (auto simp: Let_def)
          then have "cleanLoop True rest (render st) 1 = cleanLoop True ?r2 (render (st @ [?e])) 1"
            using Cons out by simp
          moreover have "length ?r2 < length rest"
            using Cons by (simp add: less_Suc_eq_le length_dropWhile_le)
          moreover have "list_all realElem (st @ [?e])"
            using st e by simp
          ultimately show ?thesis
            using IH[of ?r2 "st @ [?e]"] f by simp
        qed
      qed
    qed
  qed
qed


lemma Clean_rooted:
  "Clean (CHR ''/'' # r) = render (foldl stepElem [] (splitSlash r))"
  using cleanLoop_rooted[of "[]" r] by (simp add: Clean_def render_def)

lemma cleaned_elements: "list_all realElem (foldl stepElem [] (splitSlash r))"
  using cleanLoop_rooted[of "[]" r] by simp

lemma foldl_stepElem_joinSlash:
  "list_all realElem st \<Longrightarrow> foldl stepElem acc (splitSlash (joinSlash st)) = acc @ st"
proof (induction st arbitrary: acc rule: joinSlash.induct)
  case 1
  show ?case by simp
next
  case (2 e)
  then show ?case
    by (simp add: splitSlash_noslash stepElem_real realElem_def)
next
  case (3 e e' es)
  then have e: "realElem e" and rest: "list_all realElem (e' # es)"
    by simp_all
  from e have "splitSlash (joinSlash (e # e' # es)) = e # splitSlash (joinSlash (e' # es))"
    using splitSlash_append[of e "joinSlash (e' # es)"] by (simp add: realElem_def)
  with "3.IH"[OF rest, of "acc @ [e]"] e show ?case
    by (simp add: stepElem_real)
qed

lemma Clean_render:
  assumes "list_all realElem st"
  shows "Clean (render st) = render st"
  using foldl_stepElem_joinSlash[OF assms, of "[]"]
  by (simp add: render_def Clean_rooted[unfolded render_def])

lemma Join_pair: "a \<noteq> [] \<Longrightarrow> Join [a, b] = Clean (a @ ''/'' @ b)"
  by (simp add: Join_def)

lemma path_normalized:
  defines "cleaned \<equiv> (\<lambda>volDirBasePath volName. Clean (''/'' @ volDirBasePath @ ''/'' @ volName))"
  shows "Join [Clean (Join [''/'', volDirBasePath]), volName] = cleaned volDirBasePath volName"
    and "hd (cleaned volDirBasePath volName) = CHR ''/''"
    and "Clean (cleaned volDirBasePath volName) = cleaned volDirBasePath volName"
proof -
  let ?S1 = "foldl stepElem [] (splitSlash volDirBasePath)"
  let ?S2 = "foldl stepElem ?S1 (splitSlash volName)"
  have s1: "list_all realElem ?S1"
    by (rule cleaned_elements)
  have target: "cleaned volDirBasePath volName = render ?S2"
    by (simp add: cleaned_def Clean_rooted splitSlash_append2)
  have s2: "list_all realElem ?S2"
    using cleaned_elements[of "volDirBasePath @ CHR ''/'' # volName"]
    by (simp add: splitSlash_append2)
  have "Join [''/'', volDirBasePath] = render ?S1"
    by (simp add: Join_pair Clean_rooted)
  then have base: "Clean (Join [''/'', volDirBasePath]) = render ?S1"
    by (simp add: Clean_render[OF s1])
  have "Join [render ?S1, volName] = Clean (render ?S1 @ ''/'' @ volName)"
    by (rule Join_pair) (simp add: render_def)
  also have "\<dots> = render (foldl stepElem [] (splitSlash (joinSlash ?S1) @ splitSlash volName))"
    by (simp add: render_def Clean_rooted[unfolded render_def] splitSlash_append2)
  also have "\<dots> = render ?S2"
    using foldl_stepElem_joinSlash[OF s1, of "[]"] by simp
  finally show "Join [Clean (Join [''/'', volDirBasePath]), volName] = cleaned volDirBasePath volName"
    using base target by simp
  show "hd (cleaned volDirBasePath volName) = CHR ''/''"
    by (simp add: target render_def)
  show "Clean (cleaned volDirBasePath volName) = cleaned volDirBasePath volName"
    by (simp add: target Clean_render[OF s2])
qed

section \<open>Directory names\<close>

lemma replaceLoop_char:
  assumes "n < 0" and "new \<noteq> [a]"
  shows "replaceLoop n [a] new s = concat (map (\<lambda>c. if c = a then new else [c]) s)"
  using assms(1)
proof (induction s arbitrary: n)
  case Nil
  show ?case by simp
next
  case (Cons c s)
  then show ?case by (cases "c = a") simp_all
qed

lemma Replace_char:
  "new \<noteq> [a] \<Longrightarrow> Replace s [a] new (- 1) = concat (map (\<lambda>c. if c = a then new else [c]) s)"
  by (simp add: Replace_def replaceLoop_char)

lemma replaceLoop_zero: "replaceLoop 0 old new s = s"
  by (cases s) simp_all

lemma Replace_first_prefix: "old \<noteq> [] \<Longrightarrow> Replace (old @ s) old [] 1 = s"
  by (cases old) (simp_all add: Replace_def replaceLoop_zero)

lemma encodeName_two_passes:
  "Replace (Replace s ''_'' ''__'' (- 1)) ''/'' ''_'' (- 1) = encodeName s"
proof -
  have "concat (map (\<lambda>c. if c = CHR ''/'' then ''_'' else [c])
          (concat (map (\<lambda>c. if c = CHR ''_'' then ''__'' else [c]) s))) = encodeName s"
    by (induction s) (simp_all add: encodeName_def)
  then show ?thesis
    by (simp add: Replace_char)
qed

lemma length_Sprintf_x: "length (Sprintf_x digest) = 40"
  by (simp add: Sprintf_x_def)

lemma hexDigit_set: "n < 16 \<Longrightarrow> hexDigit n \<in> set ''0123456789abcdef''"
  unfolding hexDigit_def by (rule nth_mem) simp

lemma hexDigit_value:
  assumes "m < 16"
  shows "(if inRange CHR ''0'' CHR ''9'' (hexDigit m)
          then of_char (hexDigit m) - of_char CHR ''0''
          else of_char (hexDigit m) - of_char CHR ''a'' + 10) = int m"
proof -
  from assms have "m = 0 \<or> m = 1 \<or> m = 2 \<or> m = 3 \<or> m = 4 \<or> m = 5 \<or> m = 6 \<or> m = 7 \<or>
      m = 8 \<or> m = 9 \<or> m = 10 \<or> m = 11 \<or> m = 12 \<or> m = 13 \<or> m = 14 \<or> m = 15"
    by arith
  then show ?thesis
    by (elim disjE) (simp_all add: hexDigit_def inRange_def)
qed

lemma hexValue_digits:
  "foldl (\<lambda>n c. 16 * n +
              (if inRange CHR ''0'' CHR ''9'' c then of_char c - of_char CHR ''0''
               else of_char c - of_char CHR ''a'' + 10)) acc
     (map (\<lambda>i. hexDigit (x div 16 ^ i mod 16)) (rev [0..<k])) =
   acc * 16 ^ k + int (x mod 16 ^ k)"
proof (induction k arbitrary: acc)
  case 0
  then show ?case by simp
next
  case (Suc k)
  let ?f = "\<lambda>n c. 16 * n +
              (if inRange CHR ''0'' CHR ''9'' c then of_char c - of_char CHR ''0''
               else of_char c - of_char CHR ''a'' + (10 :: int))"
  have split: "x mod 16 ^ Suc k = 16 ^ k * (x div 16 ^ k mod 16) + x mod 16 ^ k"
    using mod_mult2_eq[of x "16 ^ k" 16] by (simp add: mult.commute)
  have "foldl ?f acc (map (\<lambda>i. hexDigit (x div 16 ^ i mod 16)) (rev [0..<Suc k])) =
        foldl ?f (16 * acc + int (x div 16 ^ k mod 16))
          (map (\<lambda>i. hexDigit (x div 16 ^ i mod 16)) (rev [0..<k]))"
    by (simp add: hexDigit_value)
  also have "\<dots> = (16 * acc + int (x div 16 ^ k mod 16)) * 16 ^ k + int (x mod 16 ^ k)"
    by (rule Suc.IH)
  also have "\<dots> = acc * 16 ^ Suc k + int (x mod 16 ^ Suc k)"
    unfolding split by (simp add: algebra_simps)
  finally show ?case .
qed

lemma nibble_unat:
  "unat (take_bit 4 (drop_bit (4 * i) (digest :: 160 word))) = unat digest div 16 ^ i mod 16"
proof -
  have "unat (take_bit 4 (drop_bit (4 * i) digest)) = take_bit 4 (drop_bit (4 * i) (unat digest))"
    by (simp only: unsigned_take_bit_eq unat_drop_bit_eq)
  also have "\<dots> = unat digest div 2 ^ (4 * i) mod 2 ^ 4"
    by (simp only: take_bit_eq_mod drop_bit_eq_div)
  also have "\<dots> = unat digest div 16 ^ i mod 16"
    by (simp add: power_mult)
  finally show ?thesis .
qed

lemma hexValue_Sprintf_x: "hexValue (Sprintf_x digest) = uint digest"
proof -
  have "hexValue (Sprintf_x digest) = int (unat digest mod 16 ^ 40)"
    using hexValue_digits[of 0 "unat digest" 40]
    by (simp only: hexValue_def Sprintf_x_def nibble_unat)
  moreover have "unat digest < 2 ^ LENGTH(160)"
    by (rule unsigned_less)
  then have "unat digest < 16 ^ 40"
    by simp
  ultimately show ?thesis
    by simp
qed

lemma Sprintf_x_digits: "set (Sprintf_x digest) \<subseteq> set ''0123456789abcdef''"
  unfolding Sprintf_x_def nibble_unat using hexDigit_set by (auto simp del: set_simps)

text \<open>
  C4. \<open>sanitizeVolumeID\<close> is a function of the identity (and of the hash function). Its
  two replacement passes are the one-pass encoding \<open>encodeName\<close> (every underscore doubled,
  every path separator one underscore) of the identity without the first occurrence of
  \<open>beegfs://\<close>, which for an identity \<open>beegfs://rest\<close> is \<open>rest\<close>. The result is the printed
  hash of the whole identity exactly when the encoding is longer than 255 bytes, and the
  encoding otherwise. The printed hash is 40 lower-case hexadecimal digits, and read as a
  hexadecimal numeral it is the digest itself: different digests print differently.
\<close>

theorem sanitizeVolumeID_encoding:
  "sanitizeVolumeID sha1 identity =
     (if length (encodeName (Replace identity ''beegfs://'' '''' 1)) > 255
      then Sprintf_x (sha1 identity)
      else encodeName (Replace identity ''beegfs://'' '''' 1))
   \<and> sanitizeVolumeID sha1 (''beegfs://'' @ rest) =
     (if length (encodeName rest) > 255 then Sprintf_x (sha1 (''beegfs://'' @ rest))
      else encodeName rest)
   \<and> length (Sprintf_x (sha1 identity)) = 40
   \<and> set (Sprintf_x (sha1 identity)) \<subseteq> set ''0123456789abcdef''
   \<and> hexValue (Sprintf_x (sha1 identity)) = uint (sha1 identity)
   \<and> (Sprintf_x (sha1 identity) = Sprintf_x (sha1 other) \<longleftrightarrow> sha1 identity = sha1 other)"
proof -
  have strip: "Replace (''beegfs://'' @ rest) ''beegfs://'' '''' 1 = rest"
    by (rule Replace_first_prefix) simp
  have general: "sanitizeVolumeID f v =
     (if length (encodeName (Replace v ''beegfs://'' '''' 1)) > 255 then Sprintf_x (f v)
      else encodeName (Replace v ''beegfs://'' '''' 1))" for f v
    by (simp add: sanitizeVolumeID_def encodeName_two_passes)
  have inj: "Sprintf_x (sha1 identity) = Sprintf_x (sha1 other) \<longleftrightarrow> sha1 identity = sha1 other"
  proof
    assume "Sprintf_x (sha1 identity) = Sprintf_x (sha1 other)"
    then have "hexValue (Sprintf_x (sha1 identity)) = hexValue (Sprintf_x (sha1 other))"
      by simp
    then have "uint (sha1 identity) = uint (sha1 other)"
      by (simp only: hexValue_Sprintf_x)
    then show "sha1 identity = sha1 other"
      by (rule word_uint_eqI)
  next
    assume "sha1 identity = sha1 other"
    then show "Sprintf_x (sha1 identity) = Sprintf_x (sha1 other)"
      by simp
  qed
  from general[of sha1 identity] general[of sha1 "''beegfs://'' @ rest"] strip
    length_Sprintf_x[of "sha1 identity"] Sprintf_x_digits[of "sha1 identity"]
    hexValue_Sprintf_x[of "sha1 identity"] inj
  show ?thesis
    by (simp del: set_simps)
qed

theorem sanitizeVolumeID_encoding_witness:
  "sanitizeVolumeID (\<lambda>_. 0) ''beegfs://127.0.0.1/scratch/vol_1'' = ''127.0.0.1_scratch_vol__1''"
proof -
  have "sanitizeVolumeID (\<lambda>_. 0) (''beegfs://'' @ ''127.0.0.1/scratch/vol_1'') =
          (if length (encodeName ''127.0.0.1/scratch/vol_1'') > 255
           then Sprintf_x ((\<lambda>_. 0) (''beegfs://'' @ ''127.0.0.1/scratch/vol_1''))
           else encodeName ''127.0.0.1/scratch/vol_1'')"
    using sanitizeVolumeID_encoding[of "\<lambda>_. 0" "[]" "''127.0.0.1/scratch/vol_1''"]
    by (rule conjunct2[THEN conjunct1])
  then show ?thesis
    by (simp add: encodeName_def)
qed

section \<open>Redaction\<close>

text \<open>
  C6. In the serialization of a \<open>beegfsConfig\<close> the member \<open>ConnAuth\<close> is the placeholder
  \<open>******\<close> when the secret is not empty and is left out when it is empty; in that of a
  \<open>connAuthConfig\<close> it is the placeholder or the empty string. Nothing else of the
  serialization depends on the secret: two values that differ only in their non-empty
  secrets serialize identically, and every value serializes as the value whose secret
  has been replaced by the placeholder.
\<close>

theorem MarshalJSON_redacts:
  "member (beegfsConfig_MarshalJSON c) ''ConnAuth''
     = (if connAuth c = '''' then None else Some (JString ''******''))
   \<and> member (connAuthConfig_MarshalJSON a) ''ConnAuth''
     = Some (JString (if caConnAuth a = '''' then '''' else ''******''))
   \<and> (\<forall>s s'. s \<noteq> '''' \<and> s' \<noteq> '''' \<longrightarrow>
          beegfsConfig_MarshalJSON (c\<lparr>connAuth := s\<rparr>) = beegfsConfig_MarshalJSON (c\<lparr>connAuth := s'\<rparr>)
        \<and> connAuthConfig_MarshalJSON (a\<lparr>caConnAuth := s\<rparr>)
            = connAuthConfig_MarshalJSON (a\<lparr>caConnAuth := s'\<rparr>))
   \<and> beegfsConfig_MarshalJSON c
        = beegfsConfig_MarshalJSON (c\<lparr>connAuth := (if connAuth c = '''' then '''' else ''******'')\<rparr>)
   \<and> connAuthConfig_MarshalJSON a
        = connAuthConfig_MarshalJSON (a\<lparr>caConnAuth := (if caConnAuth a = '''' then '''' else ''******'')\<rparr>)"
  by (simp add: beegfsConfig_MarshalJSON_def connAuthConfig_MarshalJSON_def member_def)

theorem MarshalJSON_redacts_witness:
  "beegfsConfig_MarshalJSON (newBeegfsConfig\<lparr>connAuth := ''secret1''\<rparr>)
     = beegfsConfig_MarshalJSON (newBeegfsConfig\<lparr>connAuth := ''other secret''\<rparr>)
   \<and> member (beegfsConfig_MarshalJSON (newBeegfsConfig\<lparr>connAuth := ''secret1''\<rparr>)) ''ConnAuth''
     = Some (JString ''******'')"
  using MarshalJSON_redacts[of "newBeegfsConfig\<lparr>connAuth := ''secret1''\<rparr>"]
        MarshalJSON_redacts[of newBeegfsConfig]
  by simp

section \<open>Refusing to unmount a bind-mounted volume\<close>

lemma Contains_sublist: "Contains s substr \<longleftrightarrow> sublist substr s"
  by (induction s) (auto simp: sublist_Cons_right)

lemma Contains_self: "Contains s s"
  by (simp add: Contains_sublist)

lemma findBindMount_Some:
  assumes "entry \<in> set allMounts" "Device entry = ''beegfs_nodev''"
    "\<not> Contains (Path entry) (mountPath vol)"
    "list_ex (\<lambda>opt. Contains opt (clientConfPath vol)) (Opts entry)"
  shows "\<exists>first. findBindMount vol allMounts = Some first"
  using assms by (induction allMounts) auto

lemma findBindMount_first:
  assumes "findBindMount vol allMounts = Some first"
  shows "\<exists>before rest. allMounts = before @ first # rest \<and>
     (\<forall>e \<in> set before.
        \<not> (Device e = ''beegfs_nodev'' \<and> \<not> Contains (Path e) (mountPath vol) \<and>
           list_ex (\<lambda>opt. Contains opt (clientConfPath vol)) (Opts e))) \<and>
     Device first = ''beegfs_nodev'' \<and> \<not> Contains (Path first) (mountPath vol) \<and>
     list_ex (\<lambda>opt. Contains opt (clientConfPath vol)) (Opts first)"
  using assms
proof (induction allMounts)
  case Nil
  then show ?case by simp
next
  case (Cons e es)
  show ?case
  proof (cases "Device e = ''beegfs_nodev'' \<and> \<not> Contains (Path e) (mountPath vol) \<and>
           list_ex (\<lambda>opt. Contains opt (clientConfPath vol)) (Opts e)")
    case True
    with Cons.prems have "first = e"
      by simp
    with True have "e # es = [] @ first # es \<and>
     (\<forall>e \<in> set []. \<not> (Device e = ''beegfs_nodev'' \<and> \<not> Contains (Path e) (mountPath vol) \<and>
           list_ex (\<lambda>opt. Contains opt (clientConfPath vol)) (Opts e))) \<and>
     Device first = ''beegfs_nodev'' \<and> \<not> Contains (Path first) (mountPath vol) \<and>
     list_ex (\<lambda>opt. Contains opt (clientConfPath vol)) (Opts first)"
      by simp
    then show ?thesis
      by blast
  next
    case False
    with Cons.prems have "findBindMount vol es = Some first"
      by auto
    from Cons.IH[OF this] obtain before rest where
      d: "es = before @ first # rest"
      and nb: "\<forall>e \<in> set before.
        \<not> (Device e = ''beegfs_nodev'' \<and> \<not> Contains (Path e) (mountPath vol) \<and>
           list_ex (\<lambda>opt. Contains opt (clientConfPath vol)) (Opts e))"
      and m: "Device first = ''beegfs_nodev''" "\<not> Contains (Path first) (mountPath vol)"
        "list_ex (\<lambda>opt. Contains opt (clientConfPath vol)) (Opts first)"
      by blast
    from d have "e # es = (e # before) @ first # rest"
      by simp
    moreover from nb False have "\<forall>x \<in> set (e # before).
        \<not> (Device x = ''beegfs_nodev'' \<and> \<not> Contains (Path x) (mountPath vol) \<and>
           list_ex (\<lambda>opt. Contains opt (clientConfPath vol)) (Opts x))"
      by simp
    ultimately show ?thesis
      using m by blast
  qed
qed

text \<open>
  Claim C3, as the code has it. When the mount table has an entry with the device
  \<open>beegfs_nodev\<close>, a path that does not contain the volume's mount path as a substring,
  and an option that contains the path of the volume's client configuration file,
  \<open>unmountAndCleanUpIfNecessary\<close> returns the refusal naming the volume's mount path and
  the path of the first such entry of the table (no entry before it is such an entry;
  its path is different from the mount path), and its only action is the reading of the
  mount table: nothing is unmounted and nothing is removed.
\<close>

theorem unmount_refuses_bind_mount:
  assumes "listMounts env = Inr allMounts"
    and "entry \<in> set allMounts"
    and "Device entry = ''beegfs_nodev''"
    and "\<not> Contains (Path entry) (mountPath vol)"
    and "\<exists>opt \<in> set (Opts entry). Contains opt (clientConfPath vol)"
  shows "\<exists>before first rest. allMounts = before @ first # rest \<and>
     (\<forall>e \<in> set before.
        \<not> (Device e = ''beegfs_nodev'' \<and> \<not> Contains (Path e) (mountPath vol) \<and>
           (\<exists>opt \<in> set (Opts e). Contains opt (clientConfPath vol)))) \<and>
     Device first = ''beegfs_nodev'' \<and> Path first \<noteq> mountPath vol \<and>
     \<not> Contains (Path first) (mountPath vol) \<and>
     (\<exists>opt \<in> set (Opts first). Contains opt (clientConfPath vol)) \<and>
     unmountAndCleanUpIfNecessary env vol rmDir w =
       (Some (RefusedUnmount (mountPath vol) (Path first)), act ListMounts w)"
proof -
  have "list_ex (\<lambda>opt. Contains opt (clientConfPath vol)) (Opts entry)"
    using assms(5) by (simp add: list_ex_iff)
  from findBindMount_Some[OF assms(2-4) this] obtain first where
    f: "findBindMount vol allMounts = Some first"
    by blast
  from findBindMount_first[OF f] obtain before rest where
    d: "allMounts = before @ first # rest"
    and nb: "\<forall>e \<in> set before.
        \<not> (Device e = ''beegfs_nodev'' \<and> \<not> Contains (Path e) (mountPath vol) \<and>
           list_ex (\<lambda>opt. Contains opt (clientConfPath vol)) (Opts e))"
    and m: "Device first = ''beegfs_nodev''" "\<not> Contains (Path first) (mountPath vol)"
      "list_ex (\<lambda>opt. Contains opt (clientConfPath vol)) (Opts first)"
    by blast
  have r: "unmountAndCleanUpIfNecessary env vol rmDir w =
       (Some (RefusedUnmount (mountPath vol) (Path first)), act ListMounts w)"
    by (simp add: unmountAndCleanUpIfNecessary_def assms(1) f)
  have ne: "Path first \<noteq> mountPath vol"
    using m(2) Contains_self by metis
  from nb have nb': "\<forall>e \<in> set before.
        \<not> (Device e = ''beegfs_nodev'' \<and> \<not> Contains (Path e) (mountPath vol) \<and>
           (\<exists>opt \<in> set (Opts e). Contains opt (clientConfPath vol)))"
    by (simp add: list_ex_iff)
  from m(3) have m3: "\<exists>opt \<in> set (Opts first). Contains opt (clientConfPath vol)"
    by (simp add: list_ex_iff)
  from d nb' m(1) ne m(2) m3 r show ?thesis
    by blast
qed

text \<open>
  A table with the view under \<open>/host\<close> and two bind mounts of the volume: the refusal names
  the first bind mount, also when the entry known to be a bind mount is the second.
\<close>

theorem unmount_refuses_bind_mount_witness:
  "unmountAndCleanUpIfNecessary
     (exEnv\<lparr>listMounts := Inr [exHostView, exBound, exBoundAgain]\<rparr>) exVol True exWorld =
     (Some (RefusedUnmount ''/d/v1/mount'' ''/pods/a/v1''), \<lparr>held = {}, trace = [ListMounts]\<rparr>)"
proof -
  from unmount_refuses_bind_mount
    [of "exEnv\<lparr>listMounts := Inr [exHostView, exBound, exBoundAgain]\<rparr>"
        "[exHostView, exBound, exBoundAgain]" exBoundAgain exVol True exWorld]
  obtain before first rest where
    d: "[exHostView, exBound, exBoundAgain] = before @ first # rest"
    and nb: "\<forall>e \<in> set before.
        \<not> (Device e = ''beegfs_nodev'' \<and> \<not> Contains (Path e) (mountPath exVol) \<and>
           (\<exists>opt \<in> set (Opts e). Contains opt (clientConfPath exVol)))"
    and m: "\<not> Contains (Path first) (mountPath exVol)"
    and r: "unmountAndCleanUpIfNecessary
       (exEnv\<lparr>listMounts := Inr [exHostView, exBound, exBoundAgain]\<rparr>) exVol True exWorld =
       (Some (RefusedUnmount (mountPath exVol) (Path first)), act ListMounts exWorld)"
    by (auto simp: exBoundAgain_def exVol_def)
  have bound: "Device exBound = ''beegfs_nodev'' \<and> \<not> Contains (Path exBound) (mountPath exVol) \<and>
           (\<exists>opt \<in> set (Opts exBound). Contains opt (clientConfPath exVol))"
    by (simp add: exBound_def exVol_def)
  have view: "Contains (Path exHostView) (mountPath exVol)"
    by (simp add: exHostView_def exVol_def)
  from d have "before = [] \<and> first = exHostView \<or> before = [exHostView] \<and> first = exBound \<or>
     before = [exHostView, exBound] \<and> first = exBoundAgain"
    by (auto simp: Cons_eq_append_conv)
  with nb m bound view have "first = exBound"
    by auto
  with r show ?thesis
    by (simp add: exBound_def exVol_def exWorld_def act_def)
qed

text \<open>
  A path that differs from the mount path but contains it is not a conflict: the entry
  under \<open>/host\<close> is taken for a second view of the same mount, and the volume is unmounted
  and its directory removed.
\<close>

theorem host_view_is_unmounted:
  "Device exHostView = ''beegfs_nodev'' \<and> Path exHostView \<noteq> mountPath exVol \<and>
   (\<exists>opt \<in> set (Opts exHostView). Contains opt (clientConfPath exVol)) \<and>
   unmountAndCleanUpIfNecessary (exEnv\<lparr>listMounts := Inr [exHostView]\<rparr>) exVol True exWorld =
     (None, \<lparr>held = {}, trace = [ListMounts, CleanupMountPoint ''/d/v1/mount'',
                                  RemoveAll ''/d/v1'']\<rparr>)"
  by (simp add: exHostView_def exVol_def exWorld_def exEnv_def act_def
      unmountAndCleanUpIfNecessary_def cleanUpIfNecessary_def)

section \<open>The concurrency guard of the controller\<close>

lemma held_act [simp]: "held (act a w) = held w"
  by (simp add: act_def)

lemma mountIfNecessary_held: "held (snd (mountIfNecessary env vol w)) = held w"
  by (auto simp: mountIfNecessary_def Let_def split: prod.splits option.splits)

lemma removeEntries_held: "held (snd (removeEntries env dir ds w)) = held w"
  by (induction ds arbitrary: w) (auto simp: Let_def split: option.splits)

lemma cleanUpIfNecessary_held: "held (snd (cleanUpIfNecessary env vol rmDir w)) = held w"
  by (auto simp: cleanUpIfNecessary_def Let_def removeEntries_held split: sum.splits)

lemma unmountAndCleanUpIfNecessary_held:
  "held (snd (unmountAndCleanUpIfNecessary env vol rmDir w)) = held w"
proof -
  let ?w2 = "act (CleanupMountPoint (mountPath vol)) (act ListMounts w)"
  obtain ce w3 where c: "cleanUpIfNecessary env vol rmDir ?w2 = (ce, w3)"
    by (cases "cleanUpIfNecessary env vol rmDir ?w2")
  then have "held w3 = held w"
    using cleanUpIfNecessary_held[of env vol rmDir ?w2] by simp
  then show ?thesis
    by (simp add: unmountAndCleanUpIfNecessary_def Let_def c split: sum.splits option.splits)
qed

lemma createVolumeSteps_held:
  "held (snd (createVolumeSteps env cs vol perms stripe w)) = held w"
proof -
  let ?w4 = "act (SetPatternForVolume (volumeID vol) stripe)
      (act (CreateDirectoryForVolume (volumeID vol) perms)
        (act (WriteClientFiles (volumeID vol) (clientConfTemplatePath cs))
          (act (MkdirAll (mountDirPath vol)) w)))"
  obtain me w5 where m: "mountIfNecessary env vol ?w4 = (me, w5)"
    by (cases "mountIfNecessary env vol ?w4")
  then have "held w5 = held w"
    using mountIfNecessary_held[of env vol ?w4] by simp
  then show ?thesis
    by (simp add: createVolumeSteps_def Let_def m split: option.splits)
qed

lemma deleteVolumeSteps_held:
  "held (snd (deleteVolumeSteps env cs vol w)) = held w"
proof -
  let ?w2 = "act (WriteClientFiles (volumeID vol) (clientConfTemplatePath cs))
          (act (MkdirAll (mountDirPath vol)) w)"
  obtain me w3 where m: "mountIfNecessary env vol ?w2 = (me, w3)"
    by (cases "mountIfNecessary env vol ?w2")
  then have "held w3 = held w"
    using mountIfNecessary_held[of env vol ?w2] by simp
  then show ?thesis
    by (simp add: deleteVolumeSteps_def Let_def m split: option.splits)
qed

lemma validateVolumeSteps_held:
  "held (snd (validateVolumeSteps env cs vol volCaps w)) = held w"
  by (simp add: validateVolumeSteps_def Let_def split: option.splits prod.splits)

lemma guarded_held:
  assumes "\<And>w0. held (snd (steps w0)) = held w0" "\<And>w1. held (snd (cleanUp w1)) = held w1"
  shows "held (snd (case obtainLockOnString s w of
         (False, w0) \<Rightarrow> (Inl (GrpcError Aborted (VolumeInUse s)), w0)
       | (True, w0) \<Rightarrow>
           (case steps w0 of
              (result, w1) \<Rightarrow>
                (case cleanUp w1 of
                   (cleanUpError, w2) \<Rightarrow>
                     (result, releaseLockOnString s w2))))) = held w"
proof (cases "s \<in> held w")
  case True
  then show ?thesis by (simp add: obtainLockOnString_def)
next
  case False
  let ?w0 = "w\<lparr>held := insert s (held w)\<rparr>"
  obtain result w1 where st: "steps ?w0 = (result, w1)"
    by (cases "steps ?w0")
  obtain ce w2 where u: "cleanUp w1 = (ce, w2)"
    by (cases "cleanUp w1")
  have "held w1 = held ?w0"
    using assms(1)[of ?w0] st by simp
  moreover have "held w2 = held w1"
    using assms(2)[of w1] u by simp
  ultimately have "held w2 = insert s (held w)"
    by simp
  then have "held (releaseLockOnString s w2) = held w"
    using False by (simp add: releaseLockOnString_def)
  then show ?thesis
    using False st u by (simp add: obtainLockOnString_def)
qed


lemma CreateVolume_held:
  "held (snd (CreateVolume env cs volName volCaps reqParams w)) = held w"
  unfolding CreateVolume_def Let_def
  by (simp add: guarded_held createVolumeSteps_held unmountAndCleanUpIfNecessary_held
      split: option.splits sum.splits)

lemma DeleteVolume_held:
  "held (snd (DeleteVolume env cs identity w)) = held w"
  unfolding DeleteVolume_def Let_def
  by (simp add: guarded_held deleteVolumeSteps_held unmountAndCleanUpIfNecessary_held
      split: option.splits sum.splits)

lemma ValidateVolumeCapabilities_held:
  "held (snd (ValidateVolumeCapabilities env cs identity volCaps w)) = held w"
  unfolding ValidateVolumeCapabilities_def Let_def
  by (simp add: guarded_held validateVolumeSteps_held cleanUpIfNecessary_held
      split: option.splits sum.splits)


text \<open>
  Claim C9. In each of the three handlers, when the arguments pass the checks and the
  identity of the volume built from them is held, the handler returns the status
  \<open>Aborted\<close> and leaves the world as it found it: no call to the file system, the mount
  table or the administration tool is made. And whatever the environment answers, the
  handler leaves the set of held identities as it found it: an identity it acquired is
  released on every way out.
\<close>

theorem guard_aborts_and_is_released:
  "(length volName \<noteq> 0 \<and> length volCaps \<noteq> 0 \<and> fst (isValidVolumeCapabilities env volCaps) \<and>
    map_of reqParams (sysMgmtdHostKey env) = Some host \<and>
    map_of reqParams (volDirBasePathKey env) = Some base \<and>
    getPermissionsConfigFromParams env reqParams = Inr perms \<and>
    getStripePatternConfigFromParams env reqParams = Inr stripe \<and>
    volumeID (cs_newBeegfsVolume env cs host (Clean (Join [''/'', base])) volName) \<in> held w \<longrightarrow>
    CreateVolume env cs volName volCaps reqParams w =
      (Inl (GrpcError Aborted (VolumeInUse
         (volumeID (cs_newBeegfsVolume env cs host (Clean (Join [''/'', base])) volName)))), w)) \<and>
   (length identity \<noteq> 0 \<and> cs_newBeegfsVolumeFromID env cs identity = Inr vol \<and>
    volumeID vol \<in> held w \<longrightarrow>
    DeleteVolume env cs identity w = (Inl (GrpcError Aborted (VolumeInUse (volumeID vol))), w)) \<and>
   (length identity \<noteq> 0 \<and> length volCaps \<noteq> 0 \<and>
    cs_newBeegfsVolumeFromID env cs identity = Inr vol \<and> volumeID vol \<in> held w \<longrightarrow>
    ValidateVolumeCapabilities env cs identity volCaps w =
      (Inl (GrpcError Aborted (VolumeInUse (volumeID vol))), w)) \<and>
   held (snd (CreateVolume env cs volName volCaps reqParams w)) = held w \<and>
   held (snd (DeleteVolume env cs identity w)) = held w \<and>
   held (snd (ValidateVolumeCapabilities env cs identity volCaps w)) = held w"
proof -
  have create: "CreateVolume env cs volName volCaps reqParams w =
      (Inl (GrpcError Aborted (VolumeInUse
         (volumeID (cs_newBeegfsVolume env cs host (Clean (Join [''/'', base])) volName)))), w)"
    if "length volName \<noteq> 0" "length volCaps \<noteq> 0" "fst (isValidVolumeCapabilities env volCaps)"
      "map_of reqParams (sysMgmtdHostKey env) = Some host"
      "map_of reqParams (volDirBasePathKey env) = Some base"
      "getPermissionsConfigFromParams env reqParams = Inr perms"
      "getStripePatternConfigFromParams env reqParams = Inr stripe"
      "volumeID (cs_newBeegfsVolume env cs host (Clean (Join [''/'', base])) volName) \<in> held w"
  proof -
    have "reqParams \<noteq> []"
      using that(4) by auto
    with that show ?thesis
      by (simp add: CreateVolume_def Let_def obtainLockOnString_def)
  qed
  have delete: "DeleteVolume env cs identity w =
      (Inl (GrpcError Aborted (VolumeInUse (volumeID vol))), w)"
    if "length identity \<noteq> 0" "cs_newBeegfsVolumeFromID env cs identity = Inr vol"
      "volumeID vol \<in> held w"
    using that by (simp add: DeleteVolume_def obtainLockOnString_def)
  have validate: "ValidateVolumeCapabilities env cs identity volCaps w =
      (Inl (GrpcError Aborted (VolumeInUse (volumeID vol))), w)"
    if "length identity \<noteq> 0" "length volCaps \<noteq> 0"
      "cs_newBeegfsVolumeFromID env cs identity = Inr vol" "volumeID vol \<in> held w"
    using that by (simp add: ValidateVolumeCapabilities_def obtainLockOnString_def)
  show ?thesis
    using create delete validate CreateVolume_held DeleteVolume_held
      ValidateVolumeCapabilities_held
    by blast
qed


lemma exUrl: "newBeegfsUrl ''10.0.0.1'' ''/v1'' = ''beegfs://10.0.0.1/v1''"
  by code_simp

lemma exRootJoin: "Join [Clean (Join [''/'', ''/'']), ''v1''] = ''/v1''"
  by code_simp

lemma exCreated:
  "volumeID (cs_newBeegfsVolume exEnv exCs ''10.0.0.1'' (Clean (Join [''/'', ''/''])) ''v1'') =
     ''beegfs://10.0.0.1/v1''"
  by (simp add: cs_newBeegfsVolume_def newBeegfsVolume_def Let_def exRootJoin exUrl)

lemma exRequested:
  "cs_newBeegfsVolumeFromID exEnv exCs ''beegfs://10.0.0.1/v1'' =
     Inr (exNewVolume (Join [csDataDir exCs,
            sanitizeVolumeID (sha1Sum exEnv) ''beegfs://10.0.0.1/v1'']) ''10.0.0.1'' ''/v1'')"
  by (simp add: cs_newBeegfsVolumeFromID_def exEnv_def)

lemma exIdentity: "volumeID (exNewVolume dir ''10.0.0.1'' ''/v1'') = ''beegfs://10.0.0.1/v1''"
  by (simp add: exNewVolume_def exUrl)

lemma exPermissions:
  "getPermissionsConfigFromParams exEnv exParams = Inr \<lparr>uid = 1000, gid = 0, mode = 493\<rparr>"
  by code_simp

lemma exStripe:
  "getStripePatternConfigFromParams exEnv exParams =
     Inr \<lparr>storagePoolID = [], stripePatternChunkSize = [], stripePatternNumTargets = []\<rparr>"
  by code_simp

theorem guard_aborts_and_is_released_witness:
  "CreateVolume exEnv exCs ''v1'' [()] exParams exBusy =
     (Inl (GrpcError Aborted (VolumeInUse ''beegfs://10.0.0.1/v1'')), exBusy) \<and>
   DeleteVolume exEnv exCs ''beegfs://10.0.0.1/v1'' exBusy =
     (Inl (GrpcError Aborted (VolumeInUse ''beegfs://10.0.0.1/v1'')), exBusy) \<and>
   ValidateVolumeCapabilities exEnv exCs ''beegfs://10.0.0.1/v1'' [()] exBusy =
     (Inl (GrpcError Aborted (VolumeInUse ''beegfs://10.0.0.1/v1'')), exBusy) \<and>
   held (snd (CreateVolume exEnv exCs ''v1'' [()] exParams exBusy)) =
     {''beegfs://10.0.0.1/v1''}"
proof -
  have request: "map_of exParams (sysMgmtdHostKey exEnv) = Some ''10.0.0.1''"
    "map_of exParams (volDirBasePathKey exEnv) = Some ''/''"
    "fst (isValidVolumeCapabilities exEnv [()])"
    by (simp_all add: exEnv_def exParams_def)
  have busy: "held exBusy = {''beegfs://10.0.0.1/v1''}"
    by (simp add: exBusy_def)
  from guard_aborts_and_is_released
    [of "''v1''" "[()]" exEnv exParams "''10.0.0.1''" "''/''"
        "\<lparr>uid = 1000, gid = 0, mode = 493\<rparr>"
        "\<lparr>storagePoolID = [], stripePatternChunkSize = [], stripePatternNumTargets = []\<rparr>"
        exCs exBusy "''beegfs://10.0.0.1/v1''"
        "exNewVolume (Join [csDataDir exCs,
            sanitizeVolumeID (sha1Sum exEnv) ''beegfs://10.0.0.1/v1'']) ''10.0.0.1'' ''/v1''"]
    request busy exCreated exRequested exIdentity exPermissions exStripe
  show ?thesis
    by simp
qed

section \<open>Normalization of the base path\<close>

text \<open>
  Claim C10. \<open>CreateVolume\<close> hands \<open>path.Clean(path.Join("/", volDirBasePath))\<close> to the
  wrapper, and the wrapper joins the volume name to it. The path from which the identity
  is minted is \<open>Clean("/" + volDirBasePath + "/" + name)\<close>, whatever the base path and the
  name are: it starts with the separator and cleaning it again changes nothing. The
  volume of the request has the identity \<open>newBeegfsUrl host\<close> of that path, and that is the
  identity a successful \<open>CreateVolume\<close> returns.
\<close>

theorem CreateVolume_normalizes_base_path:
  "cs_newBeegfsVolume env cs host (Clean (Join [''/'', base])) volName =
     newBeegfsVolume env
       (Join [csDataDir cs, sanitizeVolumeID (sha1Sum env)
                (newBeegfsUrl host (Clean (''/'' @ base @ ''/'' @ volName)))])
       host (Clean (''/'' @ base @ ''/'' @ volName)) (pluginConfig cs) \<and>
   volumeID (cs_newBeegfsVolume env cs host (Clean (Join [''/'', base])) volName) =
     newBeegfsUrl host (Clean (''/'' @ base @ ''/'' @ volName)) \<and>
   hd (Clean (''/'' @ base @ ''/'' @ volName)) = CHR ''/'' \<and>
   Clean (Clean (''/'' @ base @ ''/'' @ volName)) = Clean (''/'' @ base @ ''/'' @ volName) \<and>
   (map_of reqParams (sysMgmtdHostKey env) = Some host \<and>
    map_of reqParams (volDirBasePathKey env) = Some base \<and>
    CreateVolume env cs volName volCaps reqParams w = (Inr identity, w') \<longrightarrow>
    identity = newBeegfsUrl host (Clean (''/'' @ base @ ''/'' @ volName)))"
proof -
  let ?P = "Clean (''/'' @ base @ ''/'' @ volName)"
  let ?vol = "cs_newBeegfsVolume env cs host (Clean (Join [''/'', base])) volName"
  have vol: "?vol = newBeegfsVolume env
       (Join [csDataDir cs, sanitizeVolumeID (sha1Sum env) (newBeegfsUrl host ?P)])
       host ?P (pluginConfig cs)"
    by (simp only: cs_newBeegfsVolume_def Let_def path_normalized(1))
  have minted: "volumeID ?vol = newBeegfsUrl host ?P"
    by (simp only: vol) (simp add: newBeegfsVolume_def)
  have created: "identity = volumeID ?vol"
    if req: "map_of reqParams (sysMgmtdHostKey env) = Some host"
       "map_of reqParams (volDirBasePathKey env) = Some base"
       "CreateVolume env cs volName volCaps reqParams w = (Inr identity, w')"
  proof -
    have checks: "length volName \<noteq> 0" "length volCaps \<noteq> 0"
      "fst (isValidVolumeCapabilities env volCaps)" "length reqParams \<noteq> 0"
      using req(3) by (auto simp: CreateVolume_def split: if_splits)
    obtain perms where p: "getPermissionsConfigFromParams env reqParams = Inr perms"
      using req checks
      by (cases "getPermissionsConfigFromParams env reqParams")
         (auto simp: CreateVolume_def Let_def)
    obtain stripe where s: "getStripePatternConfigFromParams env reqParams = Inr stripe"
      using req checks p
      by (cases "getStripePatternConfigFromParams env reqParams")
         (auto simp: CreateVolume_def Let_def)
    have run: "(case obtainLockOnString (volumeID ?vol) w of
         (False, w0) \<Rightarrow> (Inl (GrpcError Aborted (VolumeInUse (volumeID ?vol))), w0)
       | (True, w0) \<Rightarrow>
           (case createVolumeSteps env cs ?vol perms stripe w0 of
              (result, w1) \<Rightarrow>
                (case unmountAndCleanUpIfNecessary env ?vol True w1 of
                   (cleanUpError, w2) \<Rightarrow>
                     (result, releaseLockOnString (volumeID ?vol) w2)))) = (Inr identity, w')"
      using req checks p s
      by (simp add: CreateVolume_def Let_def)
    obtain ok w0 where l: "obtainLockOnString (volumeID ?vol) w = (ok, w0)"
      by (cases "obtainLockOnString (volumeID ?vol) w")
    obtain result w1 where st: "createVolumeSteps env cs ?vol perms stripe w0 = (result, w1)"
      by (cases "createVolumeSteps env cs ?vol perms stripe w0")
    obtain ce w2 where u: "unmountAndCleanUpIfNecessary env ?vol True w1 = (ce, w2)"
      by (cases "unmountAndCleanUpIfNecessary env ?vol True w1")
    from run l st u have "ok" "result = Inr identity"
      by (auto split: bool.splits)
    with st have "fst (createVolumeSteps env cs ?vol perms stripe w0) = Inr identity"
      by simp
    then show ?thesis
      by (auto simp: createVolumeSteps_def Let_def split: option.splits if_splits prod.splits)
  qed
  from vol minted created path_normalized(2,3)[of base volName] show ?thesis
    by metis
qed

text \<open>
  A base path with a missing leading separator, a \<open>..\<close> segment and trailing separators,
  in an environment whose \<open>constructVolume\<close> proposes another identity.
\<close>

theorem CreateVolume_normalizes_base_path_witness:
  "map_of exParamsDots (sysMgmtdHostKey exEnv) = Some ''10.0.0.1'' \<and>
   map_of exParamsDots (volDirBasePathKey exEnv) = Some ''a/../b//'' \<and>
   CreateVolume (exEnv\<lparr>constructVolume :=
        (\<lambda>dir host p plConfig. (exNewVolume dir host p)\<lparr>volumeID := ''relative/../not-clean//''\<rparr>)\<rparr>)
     exCs ''v1'' [()] exParamsDots exWorld = (Inr ''beegfs://10.0.0.1/b/v1'', exAfterCreate) \<and>
   newBeegfsUrl ''10.0.0.1'' (Clean (''/'' @ ''a/../b//'' @ ''/'' @ ''v1'')) =
     ''beegfs://10.0.0.1/b/v1''"
proof -
  let ?env = "exEnv\<lparr>constructVolume :=
        (\<lambda>dir host p plConfig. (exNewVolume dir host p)\<lparr>volumeID := ''relative/../not-clean//''\<rparr>)\<rparr>"
  have keys: "map_of exParamsDots (sysMgmtdHostKey ?env) = Some ''10.0.0.1''"
    "map_of exParamsDots (volDirBasePathKey ?env) = Some ''a/../b//''"
    by (simp_all add: exParamsDots_def exEnv_def)
  have run: "CreateVolume ?env exCs ''v1'' [()] exParamsDots exWorld =
      (Inr ''beegfs://10.0.0.1/b/v1'', exAfterCreate)"
    by code_simp
  from CreateVolume_normalizes_base_path
    [of ?env exCs "''10.0.0.1''" "''a/../b//''" "''v1''" exParamsDots "[()]" exWorld
        "''beegfs://10.0.0.1/b/v1''" exAfterCreate] run keys
  have "''beegfs://10.0.0.1/b/v1'' =
     newBeegfsUrl ''10.0.0.1'' (Clean (''/'' @ ''a/../b//'' @ ''/'' @ ''v1''))"
    by blast
  with keys run show ?thesis
    by simp
qed

end
